theory Spec2Isabelle
  imports Complex_Main "HOL-Library.Signed_Division"
begin

section \<open>Numbers, buffers and indices\<close>

text \<open>
  The painter core is two C++ files, \<^verbatim>\<open>dot_painter_cpp.cpp\<close> and
  \<^verbatim>\<open>mcmc_painter_cpp.cpp\<close>. A \<^verbatim>\<open>double\<close> is modelled as a \<^typ>\<open>real\<close>:
  rounding, infinities and NaN are outside the model. An \<^verbatim>\<open>int\<close> is modelled as an
  unbounded \<^typ>\<open>int\<close>: no \<^verbatim>\<open>int\<close> computation is taken to overflow (canvas sizes
  and coordinates are far below \<open>2^31\<close>). A \<^verbatim>\<open>NumericVector\<close> is a
  \<^typ>\<open>real list\<close>; \<^verbatim>\<open>operator[]\<close> of Rcpp does not check its index, so an access
  outside the buffer is the error \<open>OutOfBounds\<close> wherever the source does not guard it.
  The conversion of a \<^verbatim>\<open>double\<close> that does not fit an \<^verbatim>\<open>int\<close> is the error
  \<open>IntConversion\<close> in the two functions that return a bounding box. In the render
  functions the converted values only bound the drawing loops, which are clipped to the
  canvas or to the rectangle; there the conversion is written as the floor or the ceiling
  itself.
\<close>

datatype error = OutOfBounds | IntConversion

type_synonym canvas = "real list"

text \<open>A colour is the three entries \<^verbatim>\<open>col[0], col[1], col[2]\<close>.\<close>

type_synonym colour = "real \<times> real \<times> real"

definition chan :: "colour \<Rightarrow> int \<Rightarrow> real" where
  "chan col c = (case col of (cr, cg, cb) \<Rightarrow> if c = 0 then cr else if c = 1 then cg else cb)"

text \<open>\<^verbatim>\<open>clamp01\<close> of \<^verbatim>\<open>dot_painter_cpp.cpp\<close>.\<close>

definition clamp01 :: "real \<Rightarrow> real" where
  "clamp01 v = (if v < 0 then 0 else if v > 1 then 1 else v)"

text \<open>
  \<^verbatim>\<open>clamp01\<close> of \<^verbatim>\<open>mcmc_painter_cpp.cpp\<close>; its second test reads
  \<^verbatim>\<open>if (v > 1.0) return v;\<close>.
\<close>

definition clamp01_mcmc :: "real \<Rightarrow> real" where
  "clamp01_mcmc v = (if v < 0 then 0 else if v > 1 then v else v)"

text \<open>
  \<^verbatim>\<open>idx3\<close> (the same in both files): the linear index of row \<open>y\<close>, column \<open>x\<close>
  (both 1-based) and channel \<open>c\<close> in a column-major \<open>[H, W, 3]\<close> array.
\<close>

definition idx3 :: "int \<Rightarrow> int \<Rightarrow> int \<Rightarrow> int \<Rightarrow> int \<Rightarrow> int" where
  "idx3 y x c H W = (let y0 = y - 1; x0 = x - 1 in y0 + x0 * H + c * H * W)"

text \<open>Unguarded buffer accesses.\<close>

definition rd :: "real list \<Rightarrow> int \<Rightarrow> error + real" where
  "rd xs i = (if 0 \<le> i \<and> i < int (length xs) then Inr (xs ! nat i) else Inl OutOfBounds)"

definition wr :: "int \<Rightarrow> real \<Rightarrow> real list \<Rightarrow> error + real list" where
  "wr i v xs = (if 0 \<le> i \<and> i < int (length xs) then Inr (xs[nat i := v]) else Inl OutOfBounds)"

definition bind_err :: "error + 'a \<Rightarrow> ('a \<Rightarrow> error + 'b) \<Rightarrow> error + 'b" where
  "bind_err m f = (case m of Inl e \<Rightarrow> Inl e | Inr v \<Rightarrow> f v)"

text \<open>
  The loop nest \<^verbatim>\<open>for (y = ymin; y <= ymax; ++y) for (x = xmin; x <= xmax; ++x) body\<close>,
  threading the state through the iterations in the order of the source.
\<close>

definition for_rect :: "int \<Rightarrow> int \<Rightarrow> int \<Rightarrow> int \<Rightarrow> (int \<Rightarrow> int \<Rightarrow> 's \<Rightarrow> 's) \<Rightarrow> 's \<Rightarrow> 's" where
  "for_rect xmin xmax ymin ymax body s =
     fold (\<lambda>y. fold (\<lambda>x. body y x) [xmin..xmax]) [ymin..ymax] s"

text \<open>The same loop nest when the body can fault: the first fault ends the run.\<close>

definition for_rect_err ::
  "int \<Rightarrow> int \<Rightarrow> int \<Rightarrow> int \<Rightarrow> (int \<Rightarrow> int \<Rightarrow> 's \<Rightarrow> error + 's) \<Rightarrow> 's \<Rightarrow> error + 's" where
  "for_rect_err xmin xmax ymin ymax body s =
     for_rect xmin xmax ymin ymax (\<lambda>y x r. bind_err r (body y x)) (Inr s)"

section \<open>Dots: coverage, compositing, bounding box\<close>

record dot =
  dot_x :: real
  dot_y :: real
  dot_radius :: real
  dot_alpha :: real
  dot_col :: colour

text \<open>
  The coverage of a pixel whose centre is at squared distance \<open>d2\<close> from the centre of
  a dot, as \<^verbatim>\<open>composite_dot_bbox_cpp\<close>, \<^verbatim>\<open>re_render_bbox_from_dots_cpp\<close> and
  \<^verbatim>\<open>render_full_canvas_from_dots_cpp\<close> compute it (three copies of the same lines).
  A pixel with \<^verbatim>\<open>d2 > r2\<close> is skipped by \<^verbatim>\<open>continue\<close>: coverage 0.
\<close>

definition dot_coverage :: "real \<Rightarrow> real \<Rightarrow> real" where
  "dot_coverage radius d2 =
     (if d2 > radius * radius then 0
      else if d2 > (radius - 1) * (radius - 1)
           then (let coverage = 1 - sqrt d2 / radius in if coverage < 0 then 0 else coverage)
           else 1)"

text \<open>The squared distance of the centre of pixel \<open>(x0, y0)\<close> from the point \<open>(x, y)\<close>.\<close>

definition dot_d2 :: "real \<Rightarrow> real \<Rightarrow> int \<Rightarrow> int \<Rightarrow> real" where
  "dot_d2 x y x0 y0 =
     (let px = real_of_int x0 - 1/2; py = real_of_int y0 - 1/2;
          dx = px - x; dy = py - y
      in dx * dx + dy * dy)"

text \<open>
  One iteration of the inner loop of \<^verbatim>\<open>composite_dot_bbox_cpp\<close> (and of its two copies
  in the render functions) at loop pixel \<open>(x0, y0)\<close>. The source passes the 0-based
  \<^verbatim>\<open>y_idx, x_idx\<close> to \<^verbatim>\<open>idx3\<close>, and skips the pixel when one of the three indices is
  outside the buffer.
\<close>

definition dot_pixel ::
  "int \<Rightarrow> int \<Rightarrow> real \<Rightarrow> real \<Rightarrow> real \<Rightarrow> real \<Rightarrow> colour \<Rightarrow> int \<Rightarrow> int \<Rightarrow> canvas \<Rightarrow> canvas" where
  "dot_pixel H W x y radius alpha col y0 x0 canvas =
     (let y_idx = y0 - 1; x_idx = x0 - 1 in
      if y_idx < 0 \<or> y_idx \<ge> H \<or> x_idx < 0 \<or> x_idx \<ge> W then canvas
      else
        let coverage = dot_coverage radius (dot_d2 x y x0 y0) in
        if coverage \<le> 0 \<or> alpha \<le> 0 then canvas
        else
          let a = clamp01 (coverage * alpha);
              i0 = idx3 y_idx x_idx 0 H W;
              i1 = idx3 y_idx x_idx 1 H W;
              i2 = idx3 y_idx x_idx 2 H W;
              n = int (length canvas)
          in
          if i0 < 0 \<or> i0 \<ge> n \<or> i1 < 0 \<or> i1 \<ge> n \<or> i2 < 0 \<or> i2 \<ge> n then canvas
          else
            let inR = canvas ! nat i0; inG = canvas ! nat i1; inB = canvas ! nat i2 in
            canvas[nat i0 := inR + a * (chan col 0 - inR),
                   nat i1 := inG + a * (chan col 1 - inG),
                   nat i2 := inB + a * (chan col 2 - inB)])"

definition composite_dot_bbox_cpp ::
  "canvas \<Rightarrow> int \<Rightarrow> int \<Rightarrow> real \<Rightarrow> real \<Rightarrow> real \<Rightarrow> real \<Rightarrow> colour \<Rightarrow>
   int \<Rightarrow> int \<Rightarrow> int \<Rightarrow> int \<Rightarrow> canvas" where
  "composite_dot_bbox_cpp canvas H W x y radius alpha col xmin xmax ymin ymax =
     for_rect xmin xmax ymin ymax (dot_pixel H W x y radius alpha col) canvas"

record bbox =
  bb_xmin :: int
  bb_xmax :: int
  bb_ymin :: int
  bb_ymax :: int

text \<open>
  \<^verbatim>\<open>std::floor\<close> and \<^verbatim>\<open>std::ceil\<close> return a \<^verbatim>\<open>double\<close>. The conversion
  \<^verbatim>\<open>(int)v\<close> truncates towards zero and is defined only when the truncated value is an
  \<^verbatim>\<open>int\<close>, that is between \<open>-2^31\<close> and \<open>2^31 - 1\<close>; otherwise the behaviour is
  undefined (an x86-64 build yields \<^verbatim>\<open>INT_MIN\<close>), which is the error
  \<open>IntConversion\<close> here.
\<close>

definition std_floor :: "real \<Rightarrow> real" where
  "std_floor v = real_of_int \<lfloor>v\<rfloor>"

definition std_ceil :: "real \<Rightarrow> real" where
  "std_ceil v = real_of_int \<lceil>v\<rceil>"

definition int_of_double :: "real \<Rightarrow> error + int" where
  "int_of_double v =
     (let t = (if v \<ge> 0 then \<lfloor>v\<rfloor> else \<lceil>v\<rceil>)
      in if - (2 ^ 31) \<le> t \<and> t \<le> 2 ^ 31 - 1 then Inr t else Inl IntConversion)"

text \<open>
  \<^verbatim>\<open>dot_bbox_cpp\<close>: the four conversions in the order of the source, then the box
  clipped to the canvas.
\<close>

definition dot_bbox_cpp :: "real \<Rightarrow> real \<Rightarrow> real \<Rightarrow> int \<Rightarrow> int \<Rightarrow> error + bbox" where
  "dot_bbox_cpp x y radius W H =
     bind_err (int_of_double (std_floor (x - radius))) (\<lambda>fx.
     bind_err (int_of_double (std_ceil (x + radius))) (\<lambda>cx.
     bind_err (int_of_double (std_floor (y - radius))) (\<lambda>fy.
     bind_err (int_of_double (std_ceil (y + radius))) (\<lambda>cy.
       Inr \<lparr> bb_xmin = max 1 fx, bb_xmax = min W cx,
              bb_ymin = max 1 fy, bb_ymax = min H cy \<rparr>))))"

definition in_bbox :: "bbox \<Rightarrow> int \<Rightarrow> int \<Rightarrow> bool" where
  "in_bbox b x y \<longleftrightarrow> bb_xmin b \<le> x \<and> x \<le> bb_xmax b \<and> bb_ymin b \<le> y \<and> y \<le> bb_ymax b"

text \<open>
  The first loop nest of \<^verbatim>\<open>re_render_bbox_from_dots_cpp\<close>: one pixel of the rectangle
  is set to white, again through \<^verbatim>\<open>idx3(y_idx, x_idx, c, H, W)\<close>.
\<close>

definition dot_reset_pixel :: "int \<Rightarrow> int \<Rightarrow> int \<Rightarrow> int \<Rightarrow> canvas \<Rightarrow> canvas" where
  "dot_reset_pixel H W y x canvas =
     (let y_idx = y - 1; x_idx = x - 1 in
      if y_idx < 0 \<or> y_idx \<ge> H \<or> x_idx < 0 \<or> x_idx \<ge> W then canvas
      else
        let i0 = idx3 y_idx x_idx 0 H W;
            i1 = idx3 y_idx x_idx 1 H W;
            i2 = idx3 y_idx x_idx 2 H W;
            n = int (length canvas)
        in
        if i0 < 0 \<or> i0 \<ge> n \<or> i1 < 0 \<or> i1 \<ge> n \<or> i2 < 0 \<or> i2 \<ge> n then canvas
        else canvas[nat i0 := 1, nat i1 := 1, nat i2 := 1])"

text \<open>The body of the loop over the dots of \<^verbatim>\<open>re_render_bbox_from_dots_cpp\<close>.\<close>

definition re_render_dot ::
  "int \<Rightarrow> int \<Rightarrow> int \<Rightarrow> int \<Rightarrow> int \<Rightarrow> int \<Rightarrow> dot \<Rightarrow> canvas \<Rightarrow> canvas" where
  "re_render_dot H W xmin xmax ymin ymax d canvas =
     (let x = dot_x d; y = dot_y d; radius = dot_radius d in
      if x + radius < real_of_int xmin \<or> x - radius > real_of_int xmax \<or>
         y + radius < real_of_int ymin \<or> y - radius > real_of_int ymax then canvas
      else
        let alpha = dot_alpha d; col = dot_col d;
            dot_xmin = max xmin \<lfloor>x - radius\<rfloor>;
            dot_xmax = min xmax \<lceil>x + radius\<rceil>;
            dot_ymin = max ymin \<lfloor>y - radius\<rfloor>;
            dot_ymax = min ymax \<lceil>y + radius\<rceil>
        in for_rect dot_xmin dot_xmax dot_ymin dot_ymax (dot_pixel H W x y radius alpha col) canvas)"

definition re_render_bbox_from_dots_cpp ::
  "canvas \<Rightarrow> dot list \<Rightarrow> int \<Rightarrow> int \<Rightarrow> int \<Rightarrow> int \<Rightarrow> int \<Rightarrow> int \<Rightarrow> canvas" where
  "re_render_bbox_from_dots_cpp canvas dots H W xmin xmax ymin ymax =
     fold (re_render_dot H W xmin xmax ymin ymax) dots
       (for_rect xmin xmax ymin ymax (dot_reset_pixel H W) canvas)"

text \<open>The body of the loop over the dots of \<^verbatim>\<open>render_full_canvas_from_dots_cpp\<close>.\<close>

definition render_dot :: "int \<Rightarrow> int \<Rightarrow> dot \<Rightarrow> canvas \<Rightarrow> canvas" where
  "render_dot H W d canvas =
     (let x = dot_x d; y = dot_y d; radius = dot_radius d;
          alpha = dot_alpha d; col = dot_col d;
          xmin = max 1 \<lfloor>x - radius\<rfloor>;
          xmax = min W \<lceil>x + radius\<rceil>;
          ymin = max 1 \<lfloor>y - radius\<rfloor>;
          ymax = min H \<lceil>y + radius\<rceil>
      in for_rect xmin xmax ymin ymax (dot_pixel H W x y radius alpha col) canvas)"

definition render_full_canvas_from_dots_cpp :: "canvas \<Rightarrow> dot list \<Rightarrow> int \<Rightarrow> int \<Rightarrow> canvas" where
  "render_full_canvas_from_dots_cpp canvas dots H W =
     fold (render_dot H W) dots (map (\<lambda>v. 1) canvas)"

section \<open>Lines: coverage, compositing, bounding box\<close>

record line =
  line_x1 :: real
  line_y1 :: real
  line_x2 :: real
  line_y2 :: real
  line_w :: real
  line_alpha :: real
  line_col :: colour

text \<open>
  The coverage of pixel \<open>(x, y)\<close> under the capsule of width \<open>w\<close> around the segment,
  as \<^verbatim>\<open>composite_line_bbox_cpp\<close>, \<^verbatim>\<open>re_render_bbox_from_lines_cpp\<close> and
  \<^verbatim>\<open>render_full_canvas_cpp\<close> compute it (three copies of the same lines): first the
  squared distance \<^verbatim>\<open>d2\<close> of the pixel centre from its projection on the segment, then
  the coverage from \<^verbatim>\<open>d2\<close> and the width.
\<close>

definition line_d2 :: "real \<Rightarrow> real \<Rightarrow> real \<Rightarrow> real \<Rightarrow> int \<Rightarrow> int \<Rightarrow> real" where
  "line_d2 x1 y1 x2 y2 x y =
     (let vx = x2 - x1; vy = y2 - y1;
          v2 = vx * vx + vy * vy + 1 / 10 ^ 12;
          px = real_of_int x - 1 / 2; py = real_of_int y - 1 / 2;
          t0 = ((px - x1) * vx + (py - y1) * vy) / v2;
          t = (if t0 < 0 then 0 else if t0 > 1 then 1 else t0);
          projx = x1 + t * vx; projy = y1 + t * vy;
          dx = px - projx; dy = py - projy
      in dx * dx + dy * dy)"

definition capsule_coverage :: "real \<Rightarrow> real \<Rightarrow> real" where
  "capsule_coverage w d2 =
     (let r = w / 2; aa = 1 / 2;
          inr = r - aa; outr = r + aa;
          in2 = (if inr > 0 then inr * inr else 0);
          ou2 = outr * outr
      in if inr \<le> 0
         then (if d2 < ou2
               then (let cov = 1 - sqrt d2 / outr in if cov < 0 then 0 else cov)
               else 0)
         else if d2 \<le> in2 then 1
         else if d2 \<ge> ou2 then 0
         else 1 - (sqrt d2 - inr) / (outr - inr))"

definition line_coverage :: "real \<Rightarrow> real \<Rightarrow> real \<Rightarrow> real \<Rightarrow> real \<Rightarrow> int \<Rightarrow> int \<Rightarrow> real" where
  "line_coverage x1 y1 x2 y2 w x y = capsule_coverage w (line_d2 x1 y1 x2 y2 x y)"

text \<open>
  One iteration of the inner loop of \<^verbatim>\<open>composite_line_bbox_cpp\<close>, which guards its
  accesses and passes the 0-based \<^verbatim>\<open>y0, x0\<close> to \<^verbatim>\<open>idx3\<close>.
\<close>

definition composite_line_pixel ::
  "int \<Rightarrow> int \<Rightarrow> real \<Rightarrow> real \<Rightarrow> real \<Rightarrow> real \<Rightarrow> real \<Rightarrow> real \<Rightarrow> colour \<Rightarrow>
   int \<Rightarrow> int \<Rightarrow> canvas \<Rightarrow> canvas" where
  "composite_line_pixel H W x1 y1 x2 y2 w alpha col y x canvas =
     (let y0 = y - 1; x0 = x - 1 in
      if y0 < 0 \<or> y0 \<ge> H \<or> x0 < 0 \<or> x0 \<ge> W then canvas
      else
        let cov = line_coverage x1 y1 x2 y2 w x y in
        if cov \<le> 0 \<or> alpha \<le> 0 then canvas
        else
          let a = clamp01_mcmc (cov * alpha);
              i0 = idx3 y0 x0 0 H W;
              i1 = idx3 y0 x0 1 H W;
              i2 = idx3 y0 x0 2 H W;
              n = int (length canvas)
          in
          if i0 < 0 \<or> i0 \<ge> n \<or> i1 < 0 \<or> i1 \<ge> n \<or> i2 < 0 \<or> i2 \<ge> n then canvas
          else
            let inR = canvas ! nat i0; inG = canvas ! nat i1; inB = canvas ! nat i2 in
            canvas[nat i0 := a * chan col 0 + (1 - a) * inR,
                   nat i1 := a * chan col 1 + (1 - a) * inG,
                   nat i2 := a * chan col 2 + (1 - a) * inB])"

definition composite_line_bbox_cpp ::
  "canvas \<Rightarrow> int \<Rightarrow> int \<Rightarrow> real \<Rightarrow> real \<Rightarrow> real \<Rightarrow> real \<Rightarrow> real \<Rightarrow> real \<Rightarrow> colour \<Rightarrow>
   int \<Rightarrow> int \<Rightarrow> int \<Rightarrow> int \<Rightarrow> canvas" where
  "composite_line_bbox_cpp canvas H W x1 y1 x2 y2 w alpha col xmin xmax ymin ymax =
     for_rect xmin xmax ymin ymax (composite_line_pixel H W x1 y1 x2 y2 w alpha col) canvas"

text \<open>\<^verbatim>\<open>line_bbox_cpp\<close>, with the conversions of \<open>int_of_double\<close> as in \<^verbatim>\<open>dot_bbox_cpp\<close>.\<close>

definition line_bbox_cpp ::
  "real \<Rightarrow> real \<Rightarrow> real \<Rightarrow> real \<Rightarrow> real \<Rightarrow> int \<Rightarrow> int \<Rightarrow> int \<Rightarrow> error + bbox" where
  "line_bbox_cpp x1 y1 x2 y2 w W H pad =
     (let r = w / 2 + real_of_int pad in
      bind_err (int_of_double (std_floor (min x1 x2 - r))) (\<lambda>fx.
      bind_err (int_of_double (std_ceil (max x1 x2 + r))) (\<lambda>cx.
      bind_err (int_of_double (std_floor (min y1 y2 - r))) (\<lambda>fy.
      bind_err (int_of_double (std_ceil (max y1 y2 + r))) (\<lambda>cy.
        Inr \<lparr> bb_xmin = max 1 fx, bb_xmax = min W cx,
               bb_ymin = max 1 fy, bb_ymax = min H cy \<rparr>)))))"

text \<open>
  One channel of one pixel in the render functions of \<^verbatim>\<open>mcmc_painter_cpp.cpp\<close>:
  \<^verbatim>\<open>int i = idx3(y, x, c, H, W); double in_val = canvas[i]; canvas[i] = ...\<close>, with the
  1-based \<open>y, x\<close> and no guard.
\<close>

definition blend_channel ::
  "int \<Rightarrow> int \<Rightarrow> real \<Rightarrow> colour \<Rightarrow> int \<Rightarrow> int \<Rightarrow> int \<Rightarrow> canvas \<Rightarrow> error + canvas" where
  "blend_channel H W a col y x c canvas =
     (let i = idx3 y x c H W in
      bind_err (rd canvas i) (\<lambda>in_val. wr i (a * chan col c + (1 - a) * in_val) canvas))"

text \<open>One iteration of the inner drawing loop of the two render functions for lines.\<close>

definition line_pixel ::
  "int \<Rightarrow> int \<Rightarrow> real \<Rightarrow> real \<Rightarrow> real \<Rightarrow> real \<Rightarrow> real \<Rightarrow> real \<Rightarrow> colour \<Rightarrow>
   int \<Rightarrow> int \<Rightarrow> canvas \<Rightarrow> error + canvas" where
  "line_pixel H W x1 y1 x2 y2 w alpha col y x canvas =
     (let cov = line_coverage x1 y1 x2 y2 w x y in
      if cov > 0 \<and> alpha > 0
      then let a = clamp01_mcmc (cov * alpha) in
           fold (\<lambda>c r. bind_err r (blend_channel H W a col y x c)) [0, 1, 2] (Inr canvas)
      else Inr canvas)"

text \<open>The clearing loop of \<^verbatim>\<open>re_render_bbox_from_lines_cpp\<close> at one pixel.\<close>

definition line_reset_pixel :: "int \<Rightarrow> int \<Rightarrow> int \<Rightarrow> int \<Rightarrow> canvas \<Rightarrow> error + canvas" where
  "line_reset_pixel H W y x canvas =
     fold (\<lambda>c r. bind_err r (wr (idx3 y x c H W) 1)) [0, 1, 2] (Inr canvas)"

text \<open>The body of the loop over the lines of \<^verbatim>\<open>re_render_bbox_from_lines_cpp\<close>.\<close>

definition re_render_line ::
  "int \<Rightarrow> int \<Rightarrow> int \<Rightarrow> int \<Rightarrow> int \<Rightarrow> int \<Rightarrow> line \<Rightarrow> canvas \<Rightarrow> error + canvas" where
  "re_render_line xmin xmax ymin ymax H W l canvas =
     (let x1 = line_x1 l; y1 = line_y1 l; x2 = line_x2 l; y2 = line_y2 l; w = line_w l;
          r = w / 2 + 2;
          line_xmin = min x1 x2 - r;
          line_xmax = max x1 x2 + r;
          line_ymin = min y1 y2 - r;
          line_ymax = max y1 y2 + r
      in if \<not> (line_xmax < real_of_int xmin \<or> line_xmin > real_of_int xmax \<or>
                line_ymax < real_of_int ymin \<or> line_ymin > real_of_int ymax)
         then let alpha = line_alpha l; col = line_col l;
                  draw_xmin = max xmin \<lfloor>line_xmin\<rfloor>;
                  draw_xmax = min xmax \<lceil>line_xmax\<rceil>;
                  draw_ymin = max ymin \<lfloor>line_ymin\<rfloor>;
                  draw_ymax = min ymax \<lceil>line_ymax\<rceil>
              in for_rect_err draw_xmin draw_xmax draw_ymin draw_ymax
                   (line_pixel H W x1 y1 x2 y2 w alpha col) canvas
         else Inr canvas)"

definition re_render_bbox_from_lines_cpp ::
  "canvas \<Rightarrow> line list \<Rightarrow> int \<Rightarrow> int \<Rightarrow> int \<Rightarrow> int \<Rightarrow> int \<Rightarrow> int \<Rightarrow> error + canvas" where
  "re_render_bbox_from_lines_cpp base_canvas lines xmin xmax ymin ymax H W =
     fold (\<lambda>l r. bind_err r (re_render_line xmin xmax ymin ymax H W l)) lines
       (for_rect_err xmin xmax ymin ymax (line_reset_pixel H W) base_canvas)"

text \<open>The body of the loop over the lines of \<^verbatim>\<open>render_full_canvas_cpp\<close>.\<close>

definition render_line :: "int \<Rightarrow> int \<Rightarrow> line \<Rightarrow> canvas \<Rightarrow> error + canvas" where
  "render_line H W l canvas =
     (let x1 = line_x1 l; y1 = line_y1 l; x2 = line_x2 l; y2 = line_y2 l; w = line_w l;
          alpha = line_alpha l; col = line_col l;
          r = w / 2 + 2;
          xmin = max 1 \<lfloor>min x1 x2 - r\<rfloor>;
          xmax = min W \<lceil>max x1 x2 + r\<rceil>;
          ymin = max 1 \<lfloor>min y1 y2 - r\<rfloor>;
          ymax = min H \<lceil>max y1 y2 + r\<rceil>
      in for_rect_err xmin xmax ymin ymax (line_pixel H W x1 y1 x2 y2 w alpha col) canvas)"

definition render_full_canvas_cpp :: "line list \<Rightarrow> int \<Rightarrow> int \<Rightarrow> error + canvas" where
  "render_full_canvas_cpp lines H W =
     fold (\<lambda>l r. bind_err r (render_line H W l)) lines (Inr (replicate (nat (H * W * 3)) 1))"

section \<open>The sum of squared errors over a rectangle\<close>

text \<open>
  \<^verbatim>\<open>sse_bbox_cpp\<close> of \<^verbatim>\<open>mcmc_painter_cpp.cpp\<close>: no guard, 1-based \<open>y, x\<close> given to
  \<^verbatim>\<open>idx3\<close>.
\<close>

definition sse_pixel :: "real list \<Rightarrow> real list \<Rightarrow> int \<Rightarrow> int \<Rightarrow> int \<Rightarrow> int \<Rightarrow> real \<Rightarrow> error + real" where
  "sse_pixel target canvas H W y x acc =
     (let i0 = idx3 y x 0 H W; i1 = idx3 y x 1 H W; i2 = idx3 y x 2 H W in
      bind_err (rd target i0) (\<lambda>t0. bind_err (rd canvas i0) (\<lambda>c0.
      bind_err (rd target i1) (\<lambda>t1. bind_err (rd canvas i1) (\<lambda>c1.
      bind_err (rd target i2) (\<lambda>t2. bind_err (rd canvas i2) (\<lambda>c2.
        let d0 = t0 - c0; d1 = t1 - c1; d2 = t2 - c2
        in Inr (acc + (d0 * d0 + d1 * d1 + d2 * d2)))))))))"

definition sse_bbox_cpp ::
  "real list \<Rightarrow> real list \<Rightarrow> int \<Rightarrow> int \<Rightarrow> int \<Rightarrow> int \<Rightarrow> int \<Rightarrow> int \<Rightarrow> error + real" where
  "sse_bbox_cpp target canvas H W xmin xmax ymin ymax =
     for_rect_err xmin xmax ymin ymax (sse_pixel target canvas H W) 0"

text \<open>
  \<^verbatim>\<open>sse_bbox_dots_cpp\<close> of \<^verbatim>\<open>dot_painter_cpp.cpp\<close>: guarded, 0-based
  \<^verbatim>\<open>y_idx, x_idx\<close> given to \<^verbatim>\<open>idx3\<close>.
\<close>

definition sse_dots_channel ::
  "real list \<Rightarrow> real list \<Rightarrow> int \<Rightarrow> int \<Rightarrow> int \<Rightarrow> int \<Rightarrow> int \<Rightarrow> real \<Rightarrow> error + real" where
  "sse_dots_channel target canvas H W y_idx x_idx c sse =
     (let idx = idx3 y_idx x_idx c H W in
      if idx < 0 \<or> idx \<ge> int (length target) \<or> idx \<ge> int (length canvas) then Inr sse
      else bind_err (rd target idx) (\<lambda>t. bind_err (rd canvas idx) (\<lambda>cv.
             let diff = t - cv in Inr (sse + diff * diff))))"

definition sse_dots_pixel ::
  "real list \<Rightarrow> real list \<Rightarrow> int \<Rightarrow> int \<Rightarrow> int \<Rightarrow> int \<Rightarrow> real \<Rightarrow> error + real" where
  "sse_dots_pixel target canvas H W y x sse =
     (let y_idx = y - 1; x_idx = x - 1 in
      if y_idx < 0 \<or> y_idx \<ge> H \<or> x_idx < 0 \<or> x_idx \<ge> W then Inr sse
      else fold (\<lambda>c r. bind_err r (sse_dots_channel target canvas H W y_idx x_idx c))
             [0, 1, 2] (Inr sse))"

definition sse_bbox_dots_cpp ::
  "real list \<Rightarrow> real list \<Rightarrow> int \<Rightarrow> int \<Rightarrow> int \<Rightarrow> int \<Rightarrow> int \<Rightarrow> int \<Rightarrow> error + real" where
  "sse_bbox_dots_cpp target canvas H W xmin xmax ymin ymax =
     for_rect_err xmin xmax ymin ymax (sse_dots_pixel target canvas H W) 0"

section \<open>Proposal samplers\<close>

text \<open>
  The samplers draw from R's generator (\<^verbatim>\<open>R::runif\<close>, \<^verbatim>\<open>R::rnorm\<close>,
  \<^verbatim>\<open>R::rbeta\<close>), which is not part of the two files. It is a parameter here: three
  functions that take the parameters of the draw and the state of the generator and return
  the draw and the next state.
\<close>

record 's rng =
  runif :: "real \<Rightarrow> real \<Rightarrow> 's \<Rightarrow> real \<times> 's"
  rnorm :: "real \<Rightarrow> real \<Rightarrow> 's \<Rightarrow> real \<times> 's"
  rbeta :: "real \<Rightarrow> real \<Rightarrow> 's \<Rightarrow> real \<times> 's"

text \<open>
  What is assumed of a generator: a uniform draw lies between its bounds and a Beta draw
  lies strictly between 0 and 1. A normal draw is any real.
\<close>

definition rng_contract :: "'s rng \<Rightarrow> bool" where
  "rng_contract G \<longleftrightarrow>
     (\<forall>a b s. a \<le> b \<longrightarrow> a \<le> fst (runif G a b s) \<and> fst (runif G a b s) \<le> b) \<and>
     (\<forall>a b s. 0 < fst (rbeta G a b s) \<and> fst (rbeta G a b s) < 1)"

text \<open>The conversion \<^verbatim>\<open>(int)v\<close> truncates towards zero; \<^verbatim>\<open>std::round\<close> rounds half away from zero.\<close>

definition c_int :: "real \<Rightarrow> int" where
  "c_int v = (if v \<ge> 0 then \<lfloor>v\<rfloor> else \<lceil>v\<rceil>)"

definition c_round :: "real \<Rightarrow> int" where
  "c_round v = (if v \<ge> 0 then \<lfloor>v + 1 / 2\<rfloor> else \<lceil>v - 1 / 2\<rceil>)"

definition sample_dot_prior_cpp :: "'s rng \<Rightarrow> int \<Rightarrow> int \<Rightarrow> 's \<Rightarrow> dot \<times> 's" where
  "sample_dot_prior_cpp G W H s =
     (let (x, s) = runif G 1 (real_of_int W) s;
          (y, s) = runif G 1 (real_of_int H) s;
          (n, s) = rnorm G 0 2 s;
          radius = \<bar>n\<bar> + 1;
          (alpha, s) = rbeta G 2 2 s;
          (c0, s) = runif G 0 1 s;
          (c1, s) = runif G 0 1 s;
          (c2, s) = runif G 0 1 s
      in (\<lparr> dot_x = x, dot_y = y, dot_radius = radius, dot_alpha = alpha,
             dot_col = (c0, c1, c2) \<rparr>, s))"

definition jitter_dot_cpp ::
  "'s rng \<Rightarrow> dot \<Rightarrow> int \<Rightarrow> int \<Rightarrow> real \<Rightarrow> real \<Rightarrow> real \<Rightarrow> real \<Rightarrow> 's \<Rightarrow> dot \<times> 's" where
  "jitter_dot_cpp G d W H s_xy s_r s_a s_c s =
     (let (nx, s) = rnorm G 0 s_xy s;
          x = max 1 (min (real_of_int W) (dot_x d + nx));
          (ny, s) = rnorm G 0 s_xy s;
          y = max 1 (min (real_of_int H) (dot_y d + ny));
          (nr, s) = rnorm G 0 s_r s;
          radius = max 1 (dot_radius d + nr);
          (na, s) = rnorm G 0 s_a s;
          alpha = min (999 / 1000) (max (1 / 1000) (dot_alpha d + na));
          (n0, s) = rnorm G 0 s_c s;
          c0 = min 1 (max 0 (chan (dot_col d) 0 + n0));
          (n1, s) = rnorm G 0 s_c s;
          c1 = min 1 (max 0 (chan (dot_col d) 1 + n1));
          (n2, s) = rnorm G 0 s_c s;
          c2 = min 1 (max 0 (chan (dot_col d) 2 + n2))
      in (d\<lparr> dot_x := x, dot_y := y, dot_radius := radius, dot_alpha := alpha,
              dot_col := (c0, c1, c2) \<rparr>, s))"

definition sample_line_prior_cpp :: "'s rng \<Rightarrow> int \<Rightarrow> int \<Rightarrow> 's \<Rightarrow> line \<times> 's" where
  "sample_line_prior_cpp G W H s =
     (let (x1, s) = runif G 1 (real_of_int W) s;
          (y1, s) = runif G 1 (real_of_int H) s;
          (ang, s) = runif G 0 (2 * pi) s;
          (n, s) = rnorm G 0 30 s;
          len = \<bar>n\<bar> + 5;
          x2 = max 1 (min (real_of_int W) (x1 + len * cos ang));
          y2 = max 1 (min (real_of_int H) (y1 + len * sin ang));
          (nw, s) = rnorm G 0 3 s;
          w = \<bar>nw\<bar> + 1;
          (alpha, s) = rbeta G 2 2 s;
          (c0, s) = runif G 0 1 s;
          (c1, s) = runif G 0 1 s;
          (c2, s) = runif G 0 1 s
      in (\<lparr> line_x1 = x1, line_y1 = y1, line_x2 = x2, line_y2 = y2, line_w = w,
             line_alpha = alpha, line_col = (c0, c1, c2) \<rparr>, s))"

definition jitter_line_cpp ::
  "'s rng \<Rightarrow> line \<Rightarrow> int \<Rightarrow> int \<Rightarrow> real \<Rightarrow> real \<Rightarrow> real \<Rightarrow> real \<Rightarrow> 's \<Rightarrow> line \<times> 's" where
  "jitter_line_cpp G l W H s_xy s_w s_a s_c s =
     (let (n, s) = rnorm G 0 s_xy s;
          x1 = max 1 (min (real_of_int W) (line_x1 l + n));
          (n, s) = rnorm G 0 s_xy s;
          y1 = max 1 (min (real_of_int H) (line_y1 l + n));
          (n, s) = rnorm G 0 s_xy s;
          x2 = max 1 (min (real_of_int W) (line_x2 l + n));
          (n, s) = rnorm G 0 s_xy s;
          y2 = max 1 (min (real_of_int H) (line_y2 l + n));
          (n, s) = rnorm G 0 s_w s;
          w = max (2 / 10) (line_w l + n);
          (n, s) = rnorm G 0 s_a s;
          alpha = min (999 / 1000) (max (1 / 1000) (line_alpha l + n));
          (n0, s) = rnorm G 0 s_c s;
          c0 = min 1 (max 0 (chan (line_col l) 0 + n0));
          (n1, s) = rnorm G 0 s_c s;
          c1 = min 1 (max 0 (chan (line_col l) 1 + n1));
          (n2, s) = rnorm G 0 s_c s;
          c2 = min 1 (max 0 (chan (line_col l) 2 + n2))
      in (l\<lparr> line_x1 := x1, line_y1 := y1, line_x2 := x2, line_y2 := y2, line_w := w,
              line_alpha := alpha, line_col := (c0, c1, c2) \<rparr>, s))"

subsection \<open>The residual-driven seed\<close>

text \<open>
  Both birth samplers start with the same lines. \<^verbatim>\<open>E = target - canvas\<close> and the loop
  reading \<^verbatim>\<open>E[i + c * H * W]\<close> for every \<^verbatim>\<open>i < H * W\<close> are not guarded; they stay
  inside the buffers exactly when \<open>birth_reads_ok\<close> holds, and the samplers fault
  otherwise.
\<close>

definition birth_reads_ok :: "real list \<Rightarrow> real list \<Rightarrow> int \<Rightarrow> int \<Rightarrow> bool" where
  "birth_reads_ok target canvas H W \<longleftrightarrow>
     0 \<le> H * W \<and> 3 * (H * W) \<le> int (length target) \<and> length target \<le> length canvas"

text \<open>The residual magnitude of flat pixel \<open>i\<close> (the array the source calls \<^verbatim>\<open>mag_sq\<close>).\<close>

definition residual_at :: "real list \<Rightarrow> real list \<Rightarrow> int \<Rightarrow> int \<Rightarrow> int \<Rightarrow> real" where
  "residual_at target canvas H W i =
     sqrt (fold (\<lambda>c sum. let j = nat (i + c * H * W); diff = target ! j - canvas ! j
                        in sum + diff * diff) [0, 1, 2] 0)"

definition residual_mag :: "real list \<Rightarrow> real list \<Rightarrow> int \<Rightarrow> int \<Rightarrow> real list" where
  "residual_mag target canvas H W = map (residual_at target canvas H W) [0..H * W - 1]"

text \<open>
  The cumulative-weight loop: the first index whose running sum reaches \<open>r\<close>; when no
  index does, \<^verbatim>\<open>idx\<close> keeps its initial value 0.
\<close>

fun first_crossing :: "real list \<Rightarrow> real \<Rightarrow> real \<Rightarrow> int \<Rightarrow> int" where
  "first_crossing [] r cumsum i = 0"
| "first_crossing (m # ms) r cumsum i =
     (let cumsum = cumsum + m in if cumsum \<ge> r then i else first_crossing ms r cumsum (i + 1))"

definition birth_seed ::
  "'s rng \<Rightarrow> real list \<Rightarrow> real list \<Rightarrow> int \<Rightarrow> int \<Rightarrow> 's \<Rightarrow> (real \<times> real) \<times> 's" where
  "birth_seed G target canvas H W s =
     (let mag_sq = residual_mag target canvas H W;
          max_mag = fold (\<lambda>m mx. if m > mx then m else mx) mag_sq 0
      in if max_mag < 1 / 10 ^ 6
         then let (x0, s) = runif G 1 (real_of_int W) s;
                  (y0, s) = runif G 1 (real_of_int H) s
              in ((x0, y0), s)
         else let weights = map (\<lambda>m. m / max_mag) mag_sq;
                  total_weight = fold (\<lambda>m t. t + m) weights 0;
                  (r, s) = runif G 0 total_weight s;
                  idx = first_crossing weights r 0 0;
                  y0 = real_of_int (idx smod H + 1);
                  x0 = real_of_int (idx sdiv H + 1)
              in ((x0, y0), s))"

subsection \<open>Birth of a dot\<close>

definition birth_dot_channel ::
  "'s rng \<Rightarrow> real list \<Rightarrow> int \<Rightarrow> int \<Rightarrow> int \<Rightarrow> int \<Rightarrow> int \<Rightarrow> 's \<Rightarrow> real \<times> 's" where
  "birth_dot_channel G target H W y_idx x_idx c s =
     (let target_idx = idx3 y_idx x_idx c H W in
      if target_idx \<ge> 0 \<and> target_idx < int (length target)
      then (target ! nat target_idx, s)
      else runif G 0 1 s)"

definition sample_dot_birth_datadriven_cpp ::
  "'s rng \<Rightarrow> real list \<Rightarrow> real list \<Rightarrow> int \<Rightarrow> int \<Rightarrow> 's \<Rightarrow> error + dot \<times> 's" where
  "sample_dot_birth_datadriven_cpp G target canvas H W s =
     (if \<not> birth_reads_ok target canvas H W then Inl OutOfBounds
      else
        let ((x0, y0), s) = birth_seed G target canvas H W s;
            (n, s) = rnorm G 0 (15 / 10) s;
            radius = \<bar>n\<bar> + 1;
            (alpha, s) = rbeta G 2 2 s;
            x_idx = c_int x0 - 1;
            y_idx = c_int y0 - 1;
            (col, s) =
              (if x_idx \<ge> 0 \<and> x_idx < W \<and> y_idx \<ge> 0 \<and> y_idx < H
               then let (c0, s) = birth_dot_channel G target H W y_idx x_idx 0 s;
                        (c1, s) = birth_dot_channel G target H W y_idx x_idx 1 s;
                        (c2, s) = birth_dot_channel G target H W y_idx x_idx 2 s
                    in ((c0, c1, c2), s)
               else let (c0, s) = runif G 0 1 s;
                        (c1, s) = rnorm G 0 1 s;
                        (c2, s) = runif G 0 1 s
                    in ((c0, c1, c2), s))
        in Inr (\<lparr> dot_x = x0, dot_y = y0, dot_radius = radius, dot_alpha = alpha,
                   dot_col = col \<rparr>, s))"

subsection \<open>Birth of a line\<close>

text \<open>
  One of the 20 probes along the segment: the colour sums and the count after probe \<open>i\<close>.
  The read of \<^verbatim>\<open>target\<close> is not guarded by the buffer length, only by the canvas
  extent; under \<open>birth_reads_ok\<close> it is inside the buffer.
\<close>

definition line_probe ::
  "real list \<Rightarrow> int \<Rightarrow> int \<Rightarrow> real \<Rightarrow> real \<Rightarrow> real \<Rightarrow> real \<Rightarrow> int \<Rightarrow> colour \<times> int \<Rightarrow> colour \<times> int" where
  "line_probe target H W x1 y1 x2 y2 i acc =
     (let nprobe = 20 :: int;
          t = real_of_int i / real_of_int (nprobe - 1);
          px = min W (max 1 (c_round (x1 + t * (x2 - x1))));
          py = min H (max 1 (c_round (y1 + t * (y2 - y1))))
      in if px \<ge> 1 \<and> px \<le> W \<and> py \<ge> 1 \<and> py \<le> H
         then (case acc of ((c0, c1, c2), count) \<Rightarrow>
                ((c0 + target ! nat (idx3 py px 0 H W),
                  c1 + target ! nat (idx3 py px 1 H W),
                  c2 + target ! nat (idx3 py px 2 H W)), count + 1))
         else acc)"

definition sample_line_birth_datadriven_cpp ::
  "'s rng \<Rightarrow> real list \<Rightarrow> real list \<Rightarrow> int \<Rightarrow> int \<Rightarrow> 's \<Rightarrow> error + line \<times> 's" where
  "sample_line_birth_datadriven_cpp G target canvas H W s =
     (if \<not> birth_reads_ok target canvas H W then Inl OutOfBounds
      else
        let ((x0, y0), s) = birth_seed G target canvas H W s;
            (ang, s) = runif G 0 (2 * pi) s;
            (n, s) = rnorm G 0 35 s;
            len = \<bar>n\<bar> + 8;
            x1 = max 1 (min (real_of_int W) (x0 - len / 2 * cos ang));
            y1 = max 1 (min (real_of_int H) (y0 - len / 2 * sin ang));
            x2 = max 1 (min (real_of_int W) (x0 + len / 2 * cos ang));
            y2 = max 1 (min (real_of_int H) (y0 + len / 2 * sin ang));
            (nw, s) = rnorm G 0 3 s;
            w = \<bar>nw\<bar> + 1;
            (alpha, s) = rbeta G 3 3 s;
            (tot, count) = fold (line_probe target H W x1 y1 x2 y2) [0..19] ((0, 0, 0), 0);
            col = (if count > 0
                   then (case tot of (c0, c1, c2) \<Rightarrow>
                          (c0 / real_of_int count, c1 / real_of_int count, c2 / real_of_int count))
                   else tot)
        in Inr (\<lparr> line_x1 = x1, line_y1 = y1, line_x2 = x2, line_y2 = y2, line_w = w,
                   line_alpha = alpha, line_col = col \<rparr>, s))"

subsection \<open>The domain of a primitive\<close>

definition colour_ok :: "colour \<Rightarrow> bool" where
  "colour_ok col \<longleftrightarrow> (case col of (cr, cg, cb) \<Rightarrow>
     0 \<le> cr \<and> cr \<le> 1 \<and> 0 \<le> cg \<and> cg \<le> 1 \<and> 0 \<le> cb \<and> cb \<le> 1)"

definition valid_dot :: "int \<Rightarrow> int \<Rightarrow> dot \<Rightarrow> bool" where
  "valid_dot W H d \<longleftrightarrow>
     1 \<le> dot_x d \<and> dot_x d \<le> real_of_int W \<and> 1 \<le> dot_y d \<and> dot_y d \<le> real_of_int H \<and>
     1 \<le> dot_radius d \<and> 0 < dot_alpha d \<and> dot_alpha d < 1 \<and> colour_ok (dot_col d)"

definition valid_line :: "int \<Rightarrow> int \<Rightarrow> line \<Rightarrow> bool" where
  "valid_line W H l \<longleftrightarrow>
     1 \<le> line_x1 l \<and> line_x1 l \<le> real_of_int W \<and> 1 \<le> line_y1 l \<and> line_y1 l \<le> real_of_int H \<and>
     1 \<le> line_x2 l \<and> line_x2 l \<le> real_of_int W \<and> 1 \<le> line_y2 l \<and> line_y2 l \<le> real_of_int H \<and>
     0 < line_w l \<and> 0 < line_alpha l \<and> line_alpha l < 1 \<and> colour_ok (line_col l)"

definition samples_ok :: "real list \<Rightarrow> bool" where
  "samples_ok xs \<longleftrightarrow> (\<forall>v \<in> set xs. 0 \<le> v \<and> v \<le> 1)"

section \<open>Definitions of the specification and of the proofs\<close>

text \<open>
  The sum of squared errors as the specification words it: the sum, over the pixels of the
  rectangle and the three channels, of the squared difference of the two samples of the
  pixel, with the layout of \<open>idx3\<close>.
\<close>

definition sse_spec ::
  "real list \<Rightarrow> real list \<Rightarrow> int \<Rightarrow> int \<Rightarrow> int \<Rightarrow> int \<Rightarrow> int \<Rightarrow> int \<Rightarrow> real" where
  "sse_spec target canvas H W xmin xmax ymin ymax =
     (\<Sum>y\<leftarrow>[ymin..ymax]. \<Sum>x\<leftarrow>[xmin..xmax]. \<Sum>c\<leftarrow>[0..2].
        (target ! nat (idx3 y x c H W) - canvas ! nat (idx3 y x c H W))\<^sup>2)"

text \<open>
  The geometry for which the four conversions of a bounding-box function are defined: the
  values that are rounded lie between \<open>-2^31\<close> and \<open>2^31 - 1\<close>.
\<close>

definition fits_int :: "real \<Rightarrow> bool" where
  "fits_int v \<longleftrightarrow> - (2 ^ 31) \<le> v \<and> v \<le> 2 ^ 31 - 1"

definition dot_fits :: "real \<Rightarrow> real \<Rightarrow> real \<Rightarrow> bool" where
  "dot_fits x y radius \<longleftrightarrow>
     fits_int (x - radius) \<and> fits_int (x + radius) \<and>
     fits_int (y - radius) \<and> fits_int (y + radius)"

definition line_fits :: "real \<Rightarrow> real \<Rightarrow> real \<Rightarrow> real \<Rightarrow> real \<Rightarrow> int \<Rightarrow> bool" where
  "line_fits x1 y1 x2 y2 w pad \<longleftrightarrow>
     (let r = w / 2 + real_of_int pad in
      fits_int (min x1 x2 - r) \<and> fits_int (max x1 x2 + r) \<and>
      fits_int (min y1 y2 - r) \<and> fits_int (max y1 y2 + r))"

text \<open>
  The invariant of the probe loop of the line birth sampler: each colour sum lies between
  0 and the number of probes counted so far.
\<close>

definition probe_inv :: "colour \<times> int \<Rightarrow> bool" where
  "probe_inv acc \<longleftrightarrow> (case acc of ((c0, c1, c2), n) \<Rightarrow>
     0 \<le> n \<and> 0 \<le> c0 \<and> c0 \<le> real_of_int n \<and> 0 \<le> c1 \<and> c1 \<le> real_of_int n \<and>
     0 \<le> c2 \<and> c2 \<le> real_of_int n)"

text \<open>
  Two generators for concrete runs, with a counter as state: one whose uniform draw is the
  lower bound and one whose uniform draw is the midpoint. Their normal draw is the mean
  and their Beta draw is \<open>1/2\<close>.
\<close>

definition low_rng :: "nat rng" where
  "low_rng = \<lparr> runif = (\<lambda>a b s. (a, Suc s)), rnorm = (\<lambda>m sd s. (m, Suc s)),
               rbeta = (\<lambda>a b s. (1 / 2, Suc s)) \<rparr>"

definition mid_rng :: "nat rng" where
  "mid_rng = \<lparr> runif = (\<lambda>a b s. ((a + b) / 2, Suc s)), rnorm = (\<lambda>m sd s. (m, Suc s)),
               rbeta = (\<lambda>a b s. (1 / 2, Suc s)) \<rparr>"

text \<open>
  The 4 by 4 scenario: a white canvas, and a target that is white except for pixel (2,2),
  which is pure red. Pixel (2,2) is flat pixel 5; its green and blue samples are at
  indices 21 and 37.
\<close>

definition canvas_4x4 :: "real list" where
  "canvas_4x4 = replicate 48 1"

definition target_4x4 :: "real list" where
  "target_4x4 = (replicate 48 1)[21 := 0, 37 := 0]"

text \<open>The squared error of one pixel, summed over its three channels.\<close>

definition pixel_sq_err :: "real list \<Rightarrow> real list \<Rightarrow> int \<Rightarrow> int \<Rightarrow> int \<Rightarrow> int \<Rightarrow> real" where
  "pixel_sq_err target canvas H W y x =
     (\<Sum>c\<leftarrow>[0..2]. (target ! nat (idx3 y x c H W) - canvas ! nat (idx3 y x c H W))\<^sup>2)"

text \<open>
  For the proofs about the render functions for lines: \<open>paint\<close> replaces the three
  samples of pixel \<open>(x, y)\<close> by a function of the channel and of the old sample, and
  \<open>line_blend\<close> is the new sample that the drawing loops compute for a channel of a
  pixel from the old one.
\<close>

definition paint :: "int \<Rightarrow> int \<Rightarrow> int \<Rightarrow> int \<Rightarrow> (int \<Rightarrow> real \<Rightarrow> real) \<Rightarrow> canvas \<Rightarrow> canvas" where
  "paint H W y x g cv =
     cv[nat (idx3 y x 0 H W) := g 0 (cv ! nat (idx3 y x 0 H W)),
        nat (idx3 y x 1 H W) := g 1 (cv ! nat (idx3 y x 1 H W)),
        nat (idx3 y x 2 H W) := g 2 (cv ! nat (idx3 y x 2 H W))]"

definition paint_all ::
  "int \<Rightarrow> int \<Rightarrow> (int \<Rightarrow> int \<Rightarrow> int \<Rightarrow> real \<Rightarrow> real) \<Rightarrow> (int \<times> int) list \<Rightarrow> canvas \<Rightarrow> canvas" where
  "paint_all H W g ps cv = fold (\<lambda>(y, x). paint H W y x (g y x)) ps cv"

definition line_blend :: "line \<Rightarrow> int \<Rightarrow> int \<Rightarrow> int \<Rightarrow> real \<Rightarrow> real" where
  "line_blend l y x c v =
     (let cov = line_coverage (line_x1 l) (line_y1 l) (line_x2 l) (line_y2 l) (line_w l) x y in
      if cov > 0 \<and> line_alpha l > 0
      then clamp01_mcmc (cov * line_alpha l) * chan (line_col l) c +
           (1 - clamp01_mcmc (cov * line_alpha l)) * v
      else v)"

text \<open>
  The pixels that the two render functions for lines visit for one line, in the order of
  the loops: the clipped box of \<^verbatim>\<open>re_render_bbox_from_lines_cpp\<close> (no pixel when the
  intersection test fails) and the box of \<^verbatim>\<open>render_full_canvas_cpp\<close>.
\<close>

definition re_render_pixels :: "int \<Rightarrow> int \<Rightarrow> int \<Rightarrow> int \<Rightarrow> line \<Rightarrow> (int \<times> int) list" where
  "re_render_pixels xmin xmax ymin ymax l =
     (let x1 = line_x1 l; y1 = line_y1 l; x2 = line_x2 l; y2 = line_y2 l; w = line_w l;
          r = w / 2 + 2;
          line_xmin = min x1 x2 - r;
          line_xmax = max x1 x2 + r;
          line_ymin = min y1 y2 - r;
          line_ymax = max y1 y2 + r
      in if \<not> (line_xmax < real_of_int xmin \<or> line_xmin > real_of_int xmax \<or>
                line_ymax < real_of_int ymin \<or> line_ymin > real_of_int ymax)
         then List.product [max ymin \<lfloor>line_ymin\<rfloor>..min ymax \<lceil>line_ymax\<rceil>]
                           [max xmin \<lfloor>line_xmin\<rfloor>..min xmax \<lceil>line_xmax\<rceil>]
         else [])"

definition render_pixels :: "int \<Rightarrow> int \<Rightarrow> line \<Rightarrow> (int \<times> int) list" where
  "render_pixels H W l =
     (let x1 = line_x1 l; y1 = line_y1 l; x2 = line_x2 l; y2 = line_y2 l; w = line_w l;
          r = w / 2 + 2
      in List.product [max 1 \<lfloor>min y1 y2 - r\<rfloor>..min H \<lceil>max y1 y2 + r\<rceil>]
                      [max 1 \<lfloor>min x1 x2 - r\<rfloor>..min W \<lceil>max x1 x2 + r\<rceil>])"

text \<open>
  The outcome of an operation that can fault keeps the unit interval when it is a fault or
  a canvas whose samples are all in \<open>[0, 1]\<close>.
\<close>

definition ok_or_fault :: "error + canvas \<Rightarrow> bool" where
  "ok_or_fault r \<longleftrightarrow> (case r of Inl e \<Rightarrow> True | Inr cv \<Rightarrow> samples_ok cv)"

section \<open>Evaluation on concrete inputs\<close>

lemmas loop_eval = for_rect_def for_rect_err_def bind_err_def rd_def wr_def idx3_def Let_def
  upto_rec1 chan_def

lemmas dot_eval = dot_reset_pixel_def dot_pixel_def re_render_bbox_from_dots_cpp_def
  render_full_canvas_from_dots_cpp_def re_render_dot_def render_dot_def

lemma sqrt_quarter: "sqrt (1 / 4) = 1 / 2"
  by (simp add: real_sqrt_divide)


section \<open>The coverage of a dot\<close>




section \<open>Full rendering ignores the contents of its buffer\<close>

text \<open>
  Claim C10. \<^verbatim>\<open>render_full_canvas_from_dots_cpp\<close> returns the same canvas for any two
  input buffers of the same length (so for any two of length \<open>H * W * 3\<close>), whatever
  they hold; \<^verbatim>\<open>render_full_canvas_cpp\<close> takes no buffer and starts from a white one of
  length \<open>H * W * 3\<close>.
\<close>

theorem render_full_ignores_canvas:
  "(length c1 = length c2 \<longrightarrow>
      render_full_canvas_from_dots_cpp c1 dots H W = render_full_canvas_from_dots_cpp c2 dots H W) \<and>
   render_full_canvas_cpp [] H W = Inr (replicate (nat (H * W * 3)) 1)"
  by (simp add: render_full_canvas_from_dots_cpp_def render_full_canvas_cpp_def map_replicate_const)

text \<open>
  The theorem on a 1 by 1 canvas with one black dot of alpha \<open>1/2\<close> over it, started
  from a black and from a grey buffer.
\<close>

theorem render_full_ignores_canvas_witness:
  "length [0, 0, 0 :: real] = length [1 / 2, 1 / 2, 1 / 2 :: real] \<and>
   render_full_canvas_from_dots_cpp [0, 0, 0]
     [\<lparr>dot_x = 1, dot_y = 1, dot_radius = 2, dot_alpha = 1 / 2, dot_col = (0, 0, 0)\<rparr>] 1 1 =
   render_full_canvas_from_dots_cpp [1 / 2, 1 / 2, 1 / 2]
     [\<lparr>dot_x = 1, dot_y = 1, dot_radius = 2, dot_alpha = 1 / 2, dot_col = (0, 0, 0)\<rparr>] 1 1"
  using render_full_ignores_canvas [of "[0, 0, 0]" "[1 / 2, 1 / 2, 1 / 2]"] by simp

section \<open>The doubled index conversion of the dot pipeline\<close>

text \<open>
  Claim C1 at a failing input. On a 2 by 2 canvas that is black everywhere, with no dots,
  the rectangle is the whole canvas. The full render makes every sample white. The
  incremental re-render resets only the samples that \<^verbatim>\<open>idx3(y_idx, x_idx, c, H, W)\<close>
  reaches from loop pixel (2,2), which are those of pixel (1,1); the samples of pixel
  (2,2), inside the rectangle, keep the value of the base canvas. (For lines the two
  renders do agree on the rectangle: \<open>re_render_lines_equals_full\<close> below.)
\<close>

theorem re_render_dots_differs_from_full:
  "re_render_bbox_from_dots_cpp [0, 0, 0, 0, 0, 0, 0, 0, 0, 0, 0, 0] [] 2 2 1 2 1 2
     = [1, 0, 0, 0, 1, 0, 0, 0, 1, 0, 0, 0] \<and>
   render_full_canvas_from_dots_cpp [0, 0, 0, 0, 0, 0, 0, 0, 0, 0, 0, 0] [] 2 2
     = [1, 1, 1, 1, 1, 1, 1, 1, 1, 1, 1, 1] \<and>
   idx3 2 2 0 2 2 = 3"
  by (simp add: loop_eval dot_eval)

text \<open>
  Claim C2 at a failing input. On the same black canvas with no dots, re-rendering the
  rectangle that holds only pixel (2,2) changes the three samples of pixel (1,1), at
  indices 0, 4 and 8, which lie outside the rectangle. (For lines the samples outside the
  rectangle are kept: \<open>re_render_lines_frame\<close> below.)
\<close>

theorem re_render_dots_writes_outside_rectangle:
  "re_render_bbox_from_dots_cpp [0, 0, 0, 0, 0, 0, 0, 0, 0, 0, 0, 0] [] 2 2 2 2 2 2
     = [1, 0, 0, 0, 1, 0, 0, 0, 1, 0, 0, 0] \<and>
   idx3 1 1 0 2 2 = 0 \<and> idx3 1 1 1 2 2 = 4 \<and> idx3 1 1 2 2 2 = 8"
  by (simp add: loop_eval dot_eval)

section \<open>Compositing a line with the clamp of \<^verbatim>\<open>mcmc_painter_cpp.cpp\<close>\<close>

text \<open>
  \<^verbatim>\<open>clamp01\<close> of \<^verbatim>\<open>mcmc_painter_cpp.cpp\<close> returns a value above 1 unchanged. A line
  can bring it such a value only with a width below \<open>-1\<close>, which no sampler produces and
  the data model excludes: at width \<open>-3\<close>, on a black canvas with alpha \<open>9/10\<close> and a
  white colour, the coverage at loop pixel (2,2) is \<open>3/2\<close> and the samples written are
  \<open>27/20\<close>. For every width from \<open>-1\<close> up the argument of \<^verbatim>\<open>clamp01\<close> is at most 1
  (\<open>line_alpha_unit\<close> below).
\<close>

lemma composite_line_width_below_minus_one:
  "line_coverage 2 (3 / 2) 2 (3 / 2) (- 3) 2 2 = 3 / 2 \<and>
   clamp01_mcmc (3 / 2 * (9 / 10)) = 27 / 20 \<and>
   composite_line_bbox_cpp [0, 0, 0, 0, 0, 0, 0, 0, 0, 0, 0, 0] 2 2
       2 (3 / 2) 2 (3 / 2) (- 3) (9 / 10) (1, 1, 1) 2 2 2 2
     = [27 / 20, 0, 0, 0, 27 / 20, 0, 0, 0, 27 / 20, 0, 0, 0]"
  by (simp add: loop_eval composite_line_bbox_cpp_def composite_line_pixel_def
      line_coverage_def line_d2_def capsule_coverage_def sqrt_quarter clamp01_mcmc_def)

section \<open>The sum of squared errors on concrete inputs\<close>

text \<open>
  Claim C6 at a failing input. On a 2 by 2 canvas, target and canvas differ only in the
  red sample of pixel (1,1). Over the rectangle that holds only pixel (1,1) the sum of
  squared differences is 1, and \<^verbatim>\<open>sse_bbox_dots_cpp\<close> returns 0: it reads the samples
  at indices 1 and 5, which belong to pixel (1,2), and skips the index \<open>-3\<close>.
  \<^verbatim>\<open>sse_bbox_cpp\<close> returns 1 (in general the sum of the specification:
  \<open>sse_bbox_cpp_correct\<close> below).
\<close>

theorem sse_bbox_dots_misses_rectangle:
  "sse_spec [1, 0, 0, 0, 0, 0, 0, 0, 0, 0, 0, 0] [0, 0, 0, 0, 0, 0, 0, 0, 0, 0, 0, 0] 2 2 1 1 1 1 = 1 \<and>
   sse_bbox_dots_cpp [1, 0, 0, 0, 0, 0, 0, 0, 0, 0, 0, 0] [0, 0, 0, 0, 0, 0, 0, 0, 0, 0, 0, 0] 2 2 1 1 1 1
     = Inr 0 \<and>
   sse_bbox_cpp [1, 0, 0, 0, 0, 0, 0, 0, 0, 0, 0, 0] [0, 0, 0, 0, 0, 0, 0, 0, 0, 0, 0, 0] 2 2 1 1 1 1
     = Inr 1"
  by (simp add: loop_eval sse_spec_def sse_bbox_dots_cpp_def sse_dots_pixel_def
      sse_dots_channel_def sse_bbox_cpp_def sse_pixel_def)

text \<open>
  Claim C7 at a failing input. On a 1 by 1 canvas the rectangle of columns 0 to 1 and
  row 1 extends one pixel to the left of the canvas; \<^verbatim>\<open>sse_bbox_cpp\<close> reads index
  \<open>-1\<close> of the target there. (\<^verbatim>\<open>sse_bbox_dots_cpp\<close> never reads outside its buffers:
  \<open>sse_bbox_dots_cpp_total\<close> below.)
\<close>

theorem sse_bbox_reads_outside_buffer:
  "idx3 1 0 0 1 1 = - 1 \<and> sse_bbox_cpp [0, 0, 0] [0, 0, 0] 1 1 0 1 1 1 = Inl OutOfBounds"
  by (simp add: loop_eval sse_bbox_cpp_def sse_pixel_def)

section \<open>Coverage lies in the unit interval and vanishes outside the bounding box\<close>

subsection \<open>Squares, convex combinations, floors and ceilings\<close>

lemma sq_gt: "0 \<le> r \<Longrightarrow> r < \<bar>dx\<bar> \<Longrightarrow> r * r < dx * dx + dy * (dy::real)"
proof -
  assume a: "0 \<le> r" "r < \<bar>dx\<bar>"
  have "r * r < \<bar>dx\<bar> * \<bar>dx\<bar>" using a by (intro mult_strict_mono') auto
  then have "r * r < dx * dx" by simp
  moreover have "0 \<le> dy * dy" by simp
  ultimately show ?thesis by linarith
qed

lemma sq_ge: "0 \<le> r \<Longrightarrow> r \<le> \<bar>dx\<bar> \<Longrightarrow> r * r \<le> dx * dx + dy * (dy::real)"
proof -
  assume a: "0 \<le> r" "r \<le> \<bar>dx\<bar>"
  have "r * r \<le> \<bar>dx\<bar> * \<bar>dx\<bar>" using a by (intro mult_mono) auto
  then have "r * r \<le> dx * dx" by simp
  moreover have "0 \<le> dy * dy" by simp
  ultimately show ?thesis by linarith
qed

lemma dot_coverage_range: "0 \<le> dot_coverage radius d2 \<and> dot_coverage radius d2 \<le> 1"
proof (cases "0 < radius")
  case True
  show ?thesis
  proof (cases "(radius - 1) * (radius - 1) < d2")
    case band: True
    have "0 \<le> (radius - 1) * (radius - 1)" by simp
    with band have "0 \<le> d2" by linarith
    then have "0 \<le> sqrt d2" by simp
    with True have "0 \<le> sqrt d2 / radius" by simp
    then show ?thesis
      by (simp add: dot_coverage_def Let_def)
  next
    case False
    then show ?thesis by (simp add: dot_coverage_def)
  qed
next
  case False
  then have "radius * radius \<le> (radius - 1) * (radius - 1)"
    by (simp add: algebra_simps)
  then show ?thesis
    by (auto simp: dot_coverage_def Let_def)
qed

lemma convex_between:
  fixes a b t :: real
  assumes "0 \<le> t" "t \<le> 1"
  shows "min a b \<le> a + t * (b - a) \<and> a + t * (b - a) \<le> max a b"
proof (cases "a \<le> b")
  case True
  have l: "0 \<le> t * (b - a)" using assms True by simp
  have u: "t * (b - a) \<le> b - a" using mult_right_mono[of t 1 "b - a"] assms True by simp
  have m: "min a b = a" "max a b = b" using True by auto
  have "a \<le> a + t * (b - a)" using l by linarith
  moreover have "a + t * (b - a) \<le> b" using u by linarith
  ultimately show ?thesis unfolding m by blast
next
  case False
  have u: "t * (b - a) \<le> 0" using assms False by (simp add: mult_nonneg_nonpos)
  have l: "b - a \<le> t * (b - a)" using mult_right_mono_neg[of t 1 "b - a"] assms False by simp
  have m: "min a b = b" "max a b = a" using False by auto
  have "b \<le> a + t * (b - a)" using l by linarith
  moreover have "a + t * (b - a) \<le> a" using u by linarith
  ultimately show ?thesis unfolding m by blast
qed

lemma line_d2_nonneg: "0 \<le> line_d2 x1 y1 x2 y2 x y"
  by (simp add: line_d2_def Let_def)

lemma line_d2_x:
  assumes "0 \<le> c"
    and "real_of_int x - 1/2 \<le> min x1 x2 - c \<or> max x1 x2 + c \<le> real_of_int x - 1/2"
  shows "c * c \<le> line_d2 x1 y1 x2 y2 x y"
proof -
  define t0 where "t0 = ((real_of_int x - 1/2 - x1) * (x2 - x1) + (real_of_int y - 1/2 - y1) * (y2 - y1)) / ((x2 - x1) * (x2 - x1) + (y2 - y1) * (y2 - y1) + 1 / 10 ^ 12)"
  define t where "t = (if t0 < 0 then 0 else if t0 > 1 then 1 else t0)"
  have t: "0 \<le> t" "t \<le> 1" by (auto simp: t_def)
  have d2: "line_d2 x1 y1 x2 y2 x y =
     (real_of_int x - 1/2 - (x1 + t * (x2 - x1))) * (real_of_int x - 1/2 - (x1 + t * (x2 - x1))) +
     (real_of_int y - 1/2 - (y1 + t * (y2 - y1))) * (real_of_int y - 1/2 - (y1 + t * (y2 - y1)))"
    by (simp add: line_d2_def Let_def t_def t0_def)
  have "c \<le> \<bar>real_of_int x - 1/2 - (x1 + t * (x2 - x1))\<bar>"
    using convex_between[OF t, of x1 x2] assms(2) by linarith
  then show ?thesis unfolding d2 using assms(1) by (rule sq_ge[rotated])
qed

lemma line_d2_y:
  assumes "0 \<le> c"
    and "real_of_int y - 1/2 \<le> min y1 y2 - c \<or> max y1 y2 + c \<le> real_of_int y - 1/2"
  shows "c * c \<le> line_d2 x1 y1 x2 y2 x y"
proof -
  define t0 where "t0 = ((real_of_int x - 1/2 - x1) * (x2 - x1) + (real_of_int y - 1/2 - y1) * (y2 - y1)) / ((x2 - x1) * (x2 - x1) + (y2 - y1) * (y2 - y1) + 1 / 10 ^ 12)"
  define t where "t = (if t0 < 0 then 0 else if t0 > 1 then 1 else t0)"
  have t: "0 \<le> t" "t \<le> 1" by (auto simp: t_def)
  have d2: "line_d2 x1 y1 x2 y2 x y =
     (real_of_int y - 1/2 - (y1 + t * (y2 - y1))) * (real_of_int y - 1/2 - (y1 + t * (y2 - y1))) +
     (real_of_int x - 1/2 - (x1 + t * (x2 - x1))) * (real_of_int x - 1/2 - (x1 + t * (x2 - x1)))"
    by (simp add: line_d2_def Let_def t_def t0_def)
  have "c \<le> \<bar>real_of_int y - 1/2 - (y1 + t * (y2 - y1))\<bar>"
    using convex_between[OF t, of y1 y2] assms(2) by linarith
  then show ?thesis unfolding d2 using assms(1) by (rule sq_ge[rotated])
qed

lemma capsule_coverage_range:
  assumes "- 1 \<le> w" "0 \<le> d2"
  shows "0 \<le> capsule_coverage w d2 \<and> capsule_coverage w d2 \<le> 1"
proof (cases "w / 2 - 1 / 2 \<le> 0")
  case True
  have "0 \<le> w / 2 + 1 / 2" using assms by simp
  then have "0 \<le> sqrt d2 / (w / 2 + 1 / 2)" using assms by simp
  then show ?thesis using True by (simp add: capsule_coverage_def Let_def)
next
  case False
  then have inr: "0 < w / 2 - 1 / 2" by simp
  show ?thesis
  proof (cases "d2 \<le> (w / 2 - 1 / 2) * (w / 2 - 1 / 2) \<or> (w / 2 + 1 / 2) * (w / 2 + 1 / 2) \<le> d2")
    case True
    then show ?thesis using inr by (auto simp: capsule_coverage_def Let_def)
  next
    case band: False
    have b1: "(w / 2 - 1 / 2) * (w / 2 - 1 / 2) < d2" and b2: "d2 < (w / 2 + 1 / 2) * (w / 2 + 1 / 2)"
      using band by auto
    have "sqrt ((w / 2 - 1 / 2) * (w / 2 - 1 / 2)) < sqrt d2"
      using b1 by (rule real_sqrt_less_mono)
    then have "\<bar>w / 2 - 1 / 2\<bar> < sqrt d2" by (simp only: real_sqrt_abs2)
    then have lo: "w / 2 - 1 / 2 < sqrt d2" by linarith
    have "sqrt d2 < sqrt ((w / 2 + 1 / 2) * (w / 2 + 1 / 2))"
      using b2 by (rule real_sqrt_less_mono)
    then have "sqrt d2 < \<bar>w / 2 + 1 / 2\<bar>" by (simp only: real_sqrt_abs2)
    then have hi: "sqrt d2 < w / 2 + 1 / 2" using inr by linarith
    have "capsule_coverage w d2 = 1 - (sqrt d2 - (w / 2 - 1 / 2)) / (w / 2 + 1 / 2 - (w / 2 - 1 / 2))"
      using b1 b2 inr by (simp add: capsule_coverage_def Let_def)
    also have "\<dots> = 1 - (sqrt d2 - (w / 2 - 1 / 2))" by simp
    finally show ?thesis using lo hi by linarith
  qed
qed

lemma capsule_coverage_zero:
  assumes "- 1 \<le> w" "(w / 2 + 1 / 2) * (w / 2 + 1 / 2) \<le> d2"
  shows "capsule_coverage w d2 = 0"
proof -
  show ?thesis
  proof (cases "w / 2 - 1 / 2 \<le> 0")
    case True
    then show ?thesis using assms(2) by (simp add: capsule_coverage_def Let_def)
  next
    case False
    then have inr: "0 < w / 2 - 1 / 2" by simp
    then have "(w / 2 - 1 / 2) * (w / 2 - 1 / 2) < (w / 2 + 1 / 2) * (w / 2 + 1 / 2)"
      by (intro mult_strict_mono) auto
    with assms(2) have "\<not> d2 \<le> (w / 2 - 1 / 2) * (w / 2 - 1 / 2)" by linarith
    then show ?thesis using assms(2) inr by (simp add: capsule_coverage_def Let_def)
  qed
qed


lemma int_lt_floorD: "i < \<lfloor>v\<rfloor> \<Longrightarrow> real_of_int i + 1 \<le> v" for v :: real
proof -
  assume "i < \<lfloor>v\<rfloor>"
  then have "i + 1 \<le> \<lfloor>v\<rfloor>" by simp
  then have "real_of_int (i + 1) \<le> real_of_int \<lfloor>v\<rfloor>" by (simp only: of_int_le_iff)
  also have "\<dots> \<le> v" by (rule of_int_floor_le)
  finally show ?thesis by simp
qed

lemma int_gt_ceilingD: "\<lceil>v\<rceil> < i \<Longrightarrow> v + 1 \<le> real_of_int i" for v :: real
proof -
  assume "\<lceil>v\<rceil> < i"
  then have "\<lceil>v\<rceil> + 1 \<le> i" by simp
  then have "real_of_int (\<lceil>v\<rceil> + 1) \<le> real_of_int i" by (simp only: of_int_le_iff)
  then have "real_of_int \<lceil>v\<rceil> + 1 \<le> real_of_int i" by simp
  moreover have "v \<le> real_of_int \<lceil>v\<rceil>" by (rule le_of_int_ceiling)
  ultimately show ?thesis by linarith
qed

lemma dot_outside_box:
  assumes r: "0 \<le> radius"
    and out: "px < \<lfloor>x - radius\<rfloor> \<or> \<lceil>x + radius\<rceil> < px \<or> py < \<lfloor>y - radius\<rfloor> \<or> \<lceil>y + radius\<rceil> < py"
  shows "dot_coverage radius (dot_d2 x y px py) = 0"
proof -
  have far: "radius < \<bar>real_of_int px - 1 / 2 - x\<bar> \<or> radius < \<bar>real_of_int py - 1 / 2 - y\<bar>"
    using out int_lt_floorD[of px "x - radius"] int_gt_ceilingD[of "x + radius" px]
      int_lt_floorD[of py "y - radius"] int_gt_ceilingD[of "y + radius" py]
    by (elim disjE) (simp_all, linarith+)
  have "radius * radius < dot_d2 x y px py"
    using far
  proof
    assume "radius < \<bar>real_of_int px - 1 / 2 - x\<bar>"
    from sq_gt[OF r this] show ?thesis by (simp add: dot_d2_def Let_def)
  next
    assume "radius < \<bar>real_of_int py - 1 / 2 - y\<bar>"
    from sq_gt[OF r this] show ?thesis by (simp add: dot_d2_def Let_def add.commute)
  qed
  then show ?thesis by (simp add: dot_coverage_def)
qed

lemma line_outside_box:
  assumes w: "0 \<le> w"
    and out: "px < \<lfloor>min x1 x2 - (w / 2 + 2)\<rfloor> \<or> \<lceil>max x1 x2 + (w / 2 + 2)\<rceil> < px \<or>
              py < \<lfloor>min y1 y2 - (w / 2 + 2)\<rfloor> \<or> \<lceil>max y1 y2 + (w / 2 + 2)\<rceil> < py"
  shows "line_coverage x1 y1 x2 y2 w px py = 0"
proof -
  let ?r = "w / 2 + 2"
  let ?c = "w / 2 + 1 / 2"
  have c: "0 \<le> ?c" using w by simp
  have "?c * ?c \<le> line_d2 x1 y1 x2 y2 px py"
    using out
  proof (elim disjE)
    assume "px < \<lfloor>min x1 x2 - ?r\<rfloor>"
    from int_lt_floorD[OF this] have "real_of_int px - 1 / 2 \<le> min x1 x2 - ?c" by linarith
    then show ?thesis by (intro line_d2_x[OF c]) simp
  next
    assume "\<lceil>max x1 x2 + ?r\<rceil> < px"
    from int_gt_ceilingD[OF this] have "max x1 x2 + ?c \<le> real_of_int px - 1 / 2" by linarith
    then show ?thesis by (intro line_d2_x[OF c]) simp
  next
    assume "py < \<lfloor>min y1 y2 - ?r\<rfloor>"
    from int_lt_floorD[OF this] have "real_of_int py - 1 / 2 \<le> min y1 y2 - ?c" by linarith
    then show ?thesis by (intro line_d2_y[OF c]) simp
  next
    assume "\<lceil>max y1 y2 + ?r\<rceil> < py"
    from int_gt_ceilingD[OF this] have "max y1 y2 + ?c \<le> real_of_int py - 1 / 2" by linarith
    then show ?thesis by (intro line_d2_y[OF c]) simp
  qed
  then show ?thesis
    unfolding line_coverage_def using w by (intro capsule_coverage_zero) auto
qed

subsection \<open>The conversions of the bounding-box functions\<close>

lemma int_of_double_of_int:
  "int_of_double (real_of_int k) =
     (if - (2 ^ 31) \<le> k \<and> k \<le> 2 ^ 31 - 1 then Inr k else Inl IntConversion)"
  by (simp add: int_of_double_def)

lemma int_of_double_floor: "fits_int v \<Longrightarrow> int_of_double (std_floor v) = Inr \<lfloor>v\<rfloor>"
  unfolding std_floor_def int_of_double_of_int fits_int_def
  by (simp add: le_floor_iff floor_le_iff)

lemma int_of_double_ceil: "fits_int v \<Longrightarrow> int_of_double (std_ceil v) = Inr \<lceil>v\<rceil>"
  unfolding std_ceil_def int_of_double_of_int fits_int_def
  by (simp add: le_ceiling_iff ceiling_le_iff)

lemma int_of_double_floor_Inr: "int_of_double (std_floor v) = Inr k \<Longrightarrow> k = \<lfloor>v\<rfloor>"
  by (simp add: std_floor_def int_of_double_of_int split: if_splits)

lemma int_of_double_ceil_Inr: "int_of_double (std_ceil v) = Inr k \<Longrightarrow> k = \<lceil>v\<rceil>"
  by (simp add: std_ceil_def int_of_double_of_int split: if_splits)

lemma bind_err_InrD: "bind_err m f = Inr b \<Longrightarrow> \<exists>v. m = Inr v \<and> f v = Inr b"
  by (cases m) (simp_all add: bind_err_def)

text \<open>When a bounding-box function returns, its box is the clipped box of floors and ceilings.\<close>

lemma dot_bbox_cpp_Inr:
  assumes "dot_bbox_cpp x y radius W H = Inr b"
  shows "b = \<lparr> bb_xmin = max 1 \<lfloor>x - radius\<rfloor>, bb_xmax = min W \<lceil>x + radius\<rceil>,
              bb_ymin = max 1 \<lfloor>y - radius\<rfloor>, bb_ymax = min H \<lceil>y + radius\<rceil> \<rparr>"
proof -
  from assms obtain fx where fx: "int_of_double (std_floor (x - radius)) = Inr fx"
    and 1: "bind_err (int_of_double (std_ceil (x + radius))) (\<lambda>cx.
            bind_err (int_of_double (std_floor (y - radius))) (\<lambda>fy.
            bind_err (int_of_double (std_ceil (y + radius))) (\<lambda>cy.
              Inr \<lparr> bb_xmin = max 1 fx, bb_xmax = min W cx,
                     bb_ymin = max 1 fy, bb_ymax = min H cy \<rparr>))) = Inr b"
    unfolding dot_bbox_cpp_def by (blast dest: bind_err_InrD)
  from 1 obtain cx where cx: "int_of_double (std_ceil (x + radius)) = Inr cx"
    and 2: "bind_err (int_of_double (std_floor (y - radius))) (\<lambda>fy.
            bind_err (int_of_double (std_ceil (y + radius))) (\<lambda>cy.
              Inr \<lparr> bb_xmin = max 1 fx, bb_xmax = min W cx,
                     bb_ymin = max 1 fy, bb_ymax = min H cy \<rparr>)) = Inr b"
    by (blast dest: bind_err_InrD)
  from 2 obtain fy where fy: "int_of_double (std_floor (y - radius)) = Inr fy"
    and 3: "bind_err (int_of_double (std_ceil (y + radius))) (\<lambda>cy.
              Inr \<lparr> bb_xmin = max 1 fx, bb_xmax = min W cx,
                     bb_ymin = max 1 fy, bb_ymax = min H cy \<rparr>) = Inr b"
    by (blast dest: bind_err_InrD)
  from 3 obtain cy where cy: "int_of_double (std_ceil (y + radius)) = Inr cy"
    and 4: "Inr \<lparr> bb_xmin = max 1 fx, bb_xmax = min W cx,
                   bb_ymin = max 1 fy, bb_ymax = min H cy \<rparr> = (Inr b :: error + bbox)"
    by (blast dest: bind_err_InrD)
  from 4 show ?thesis
    using int_of_double_floor_Inr[OF fx] int_of_double_ceil_Inr[OF cx]
      int_of_double_floor_Inr[OF fy] int_of_double_ceil_Inr[OF cy]
    by simp
qed

lemma line_bbox_cpp_Inr:
  assumes "line_bbox_cpp x1 y1 x2 y2 w W H pad = Inr b"
  shows "b = \<lparr> bb_xmin = max 1 \<lfloor>min x1 x2 - (w / 2 + real_of_int pad)\<rfloor>,
              bb_xmax = min W \<lceil>max x1 x2 + (w / 2 + real_of_int pad)\<rceil>,
              bb_ymin = max 1 \<lfloor>min y1 y2 - (w / 2 + real_of_int pad)\<rfloor>,
              bb_ymax = min H \<lceil>max y1 y2 + (w / 2 + real_of_int pad)\<rceil> \<rparr>"
proof -
  let ?r = "w / 2 + real_of_int pad"
  from assms obtain fx where fx: "int_of_double (std_floor (min x1 x2 - ?r)) = Inr fx"
    and 1: "bind_err (int_of_double (std_ceil (max x1 x2 + ?r))) (\<lambda>cx.
            bind_err (int_of_double (std_floor (min y1 y2 - ?r))) (\<lambda>fy.
            bind_err (int_of_double (std_ceil (max y1 y2 + ?r))) (\<lambda>cy.
              Inr \<lparr> bb_xmin = max 1 fx, bb_xmax = min W cx,
                     bb_ymin = max 1 fy, bb_ymax = min H cy \<rparr>))) = Inr b"
    unfolding line_bbox_cpp_def Let_def by (blast dest: bind_err_InrD)
  from 1 obtain cx where cx: "int_of_double (std_ceil (max x1 x2 + ?r)) = Inr cx"
    and 2: "bind_err (int_of_double (std_floor (min y1 y2 - ?r))) (\<lambda>fy.
            bind_err (int_of_double (std_ceil (max y1 y2 + ?r))) (\<lambda>cy.
              Inr \<lparr> bb_xmin = max 1 fx, bb_xmax = min W cx,
                     bb_ymin = max 1 fy, bb_ymax = min H cy \<rparr>)) = Inr b"
    by (blast dest: bind_err_InrD)
  from 2 obtain fy where fy: "int_of_double (std_floor (min y1 y2 - ?r)) = Inr fy"
    and 3: "bind_err (int_of_double (std_ceil (max y1 y2 + ?r))) (\<lambda>cy.
              Inr \<lparr> bb_xmin = max 1 fx, bb_xmax = min W cx,
                     bb_ymin = max 1 fy, bb_ymax = min H cy \<rparr>) = Inr b"
    by (blast dest: bind_err_InrD)
  from 3 obtain cy where cy: "int_of_double (std_ceil (max y1 y2 + ?r)) = Inr cy"
    and 4: "Inr \<lparr> bb_xmin = max 1 fx, bb_xmax = min W cx,
                   bb_ymin = max 1 fy, bb_ymax = min H cy \<rparr> = (Inr b :: error + bbox)"
    by (blast dest: bind_err_InrD)
  from 4 show ?thesis
    using int_of_double_floor_Inr[OF fx] int_of_double_ceil_Inr[OF cx]
      int_of_double_floor_Inr[OF fy] int_of_double_ceil_Inr[OF cy]
    by simp
qed

text \<open>A bounding-box function returns when the values it rounds fit an \<^verbatim>\<open>int\<close>.\<close>

lemma dot_bbox_cpp_fits:
  assumes "dot_fits x y radius"
  shows "dot_bbox_cpp x y radius W H =
           Inr \<lparr> bb_xmin = max 1 \<lfloor>x - radius\<rfloor>, bb_xmax = min W \<lceil>x + radius\<rceil>,
                  bb_ymin = max 1 \<lfloor>y - radius\<rfloor>, bb_ymax = min H \<lceil>y + radius\<rceil> \<rparr>"
  using assms
  by (simp add: dot_bbox_cpp_def dot_fits_def int_of_double_floor int_of_double_ceil bind_err_def)

lemma line_bbox_cpp_fits:
  assumes "line_fits x1 y1 x2 y2 w pad"
  shows "line_bbox_cpp x1 y1 x2 y2 w W H pad =
           Inr \<lparr> bb_xmin = max 1 \<lfloor>min x1 x2 - (w / 2 + real_of_int pad)\<rfloor>,
                  bb_xmax = min W \<lceil>max x1 x2 + (w / 2 + real_of_int pad)\<rceil>,
                  bb_ymin = max 1 \<lfloor>min y1 y2 - (w / 2 + real_of_int pad)\<rfloor>,
                  bb_ymax = min H \<lceil>max y1 y2 + (w / 2 + real_of_int pad)\<rceil> \<rparr>"
  using assms
  by (simp add: line_bbox_cpp_def line_fits_def Let_def int_of_double_floor int_of_double_ceil
      bind_err_def)

lemma dot_outside_bbox:
  assumes r: "0 \<le> radius" and px: "1 \<le> px" "px \<le> W" and py: "1 \<le> py" "py \<le> H"
    and box: "dot_bbox_cpp x y radius W H = Inr b"
    and out: "\<not> in_bbox b px py"
  shows "dot_coverage radius (dot_d2 x y px py) = 0"
proof -
  have "px < \<lfloor>x - radius\<rfloor> \<or> \<lceil>x + radius\<rceil> < px \<or> py < \<lfloor>y - radius\<rfloor> \<or> \<lceil>y + radius\<rceil> < py"
    using out px py unfolding dot_bbox_cpp_Inr[OF box] by (auto simp: in_bbox_def)
  with r show ?thesis by (rule dot_outside_box)
qed

lemma line_outside_bbox:
  assumes w: "0 \<le> w" and px: "1 \<le> px" "px \<le> W" and py: "1 \<le> py" "py \<le> H"
    and box: "line_bbox_cpp x1 y1 x2 y2 w W H 2 = Inr b"
    and out: "\<not> in_bbox b px py"
  shows "line_coverage x1 y1 x2 y2 w px py = 0"
proof -
  have "px < \<lfloor>min x1 x2 - (w / 2 + 2)\<rfloor> \<or> \<lceil>max x1 x2 + (w / 2 + 2)\<rceil> < px \<or>
        py < \<lfloor>min y1 y2 - (w / 2 + 2)\<rfloor> \<or> \<lceil>max y1 y2 + (w / 2 + 2)\<rceil> < py"
    using out px py unfolding line_bbox_cpp_Inr[OF box] by (auto simp: in_bbox_def)
  with w show ?thesis by (rule line_outside_box)
qed

text \<open>
  Claim C4. For a dot of radius at least 0 and a line of width at least 0 (the data model
  asks for a radius of about 1 or more and a width of about 0.2 or more), and every pixel
  \<open>(px, py)\<close> of the canvas: both coverages lie in \<open>[0, 1]\<close>; whenever
  \<^verbatim>\<open>dot_bbox_cpp\<close>, respectively \<^verbatim>\<open>line_bbox_cpp\<close> with pad 2, returns a box and the
  pixel is outside it, the coverage is 0; and the two functions do return a box when the
  values they round fit an \<^verbatim>\<open>int\<close> (\<open>dot_fits\<close>, \<open>line_fits\<close>).
\<close>

theorem coverage_bounds_and_bbox:
  assumes "0 \<le> radius" and "0 \<le> w" and "1 \<le> px" and "px \<le> W" and "1 \<le> py" and "py \<le> H"
  shows "0 \<le> dot_coverage radius (dot_d2 x y px py) \<and>
         dot_coverage radius (dot_d2 x y px py) \<le> 1 \<and>
         0 \<le> line_coverage x1 y1 x2 y2 w px py \<and>
         line_coverage x1 y1 x2 y2 w px py \<le> 1 \<and>
         (\<forall>b. dot_bbox_cpp x y radius W H = Inr b \<and> \<not> in_bbox b px py \<longrightarrow>
            dot_coverage radius (dot_d2 x y px py) = 0) \<and>
         (\<forall>b. line_bbox_cpp x1 y1 x2 y2 w W H 2 = Inr b \<and> \<not> in_bbox b px py \<longrightarrow>
            line_coverage x1 y1 x2 y2 w px py = 0) \<and>
         (dot_fits x y radius \<longrightarrow> (\<exists>b. dot_bbox_cpp x y radius W H = Inr b)) \<and>
         (line_fits x1 y1 x2 y2 w 2 \<longrightarrow> (\<exists>b. line_bbox_cpp x1 y1 x2 y2 w W H 2 = Inr b))"
proof (intro conjI allI impI)
  have "- 1 \<le> w" using assms(2) by simp
  from capsule_coverage_range[OF this line_d2_nonneg]
  show "0 \<le> line_coverage x1 y1 x2 y2 w px py" and "line_coverage x1 y1 x2 y2 w px py \<le> 1"
    by (simp_all add: line_coverage_def)
  show "0 \<le> dot_coverage radius (dot_d2 x y px py)" and "dot_coverage radius (dot_d2 x y px py) \<le> 1"
    using dot_coverage_range[of radius "dot_d2 x y px py"] by simp_all
  show "dot_coverage radius (dot_d2 x y px py) = 0"
    if "dot_bbox_cpp x y radius W H = Inr b \<and> \<not> in_bbox b px py" for b
    using dot_outside_bbox[OF assms(1,3,4,5,6)] that by blast
  show "line_coverage x1 y1 x2 y2 w px py = 0"
    if "line_bbox_cpp x1 y1 x2 y2 w W H 2 = Inr b \<and> \<not> in_bbox b px py" for b
    using line_outside_bbox[OF assms(2,3,4,5,6)] that by blast
  show "\<exists>b. dot_bbox_cpp x y radius W H = Inr b" if "dot_fits x y radius"
    using dot_bbox_cpp_fits[OF that] by blast
  show "\<exists>b. line_bbox_cpp x1 y1 x2 y2 w W H 2 = Inr b" if "line_fits x1 y1 x2 y2 w 2"
    using line_bbox_cpp_fits[OF that, of W H] by blast
qed

text \<open>
  The theorem on a 10 by 10 canvas at pixel (1,1), which lies outside the box of the dot
  of radius 2 at (5,5) and outside the box of the line of width 1 from (5,5) to (8,5),
  and at pixel (6,5), which lies on the line.
\<close>

theorem coverage_bounds_and_bbox_witness:
  "(0::real) \<le> 2 \<and> (0::real) \<le> 1 \<and> (1::int) \<le> 1 \<and> (1::int) \<le> 10 \<and>
   dot_fits 5 5 2 \<and>
   dot_bbox_cpp 5 5 2 10 10 = Inr \<lparr>bb_xmin = 3, bb_xmax = 7, bb_ymin = 3, bb_ymax = 7\<rparr> \<and>
   \<not> in_bbox \<lparr>bb_xmin = 3, bb_xmax = 7, bb_ymin = 3, bb_ymax = 7\<rparr> 1 1 \<and>
   dot_coverage 2 (dot_d2 5 5 1 1) = 0 \<and>
   line_fits 5 5 8 5 1 2 \<and>
   line_bbox_cpp 5 5 8 5 1 10 10 2 = Inr \<lparr>bb_xmin = 2, bb_xmax = 10, bb_ymin = 2, bb_ymax = 8\<rparr> \<and>
   \<not> in_bbox \<lparr>bb_xmin = 2, bb_xmax = 10, bb_ymin = 2, bb_ymax = 8\<rparr> 1 1 \<and>
   line_coverage 5 5 8 5 1 1 1 = 0 \<and>
   0 \<le> line_coverage 5 5 8 5 1 6 5 \<and> line_coverage 5 5 8 5 1 6 5 \<le> 1"
proof -
  have d: "dot_fits 5 5 2" and l: "line_fits 5 5 8 5 1 2"
    by (simp_all add: dot_fits_def line_fits_def fits_int_def)
  have db: "dot_bbox_cpp 5 5 2 10 10 = Inr \<lparr>bb_xmin = 3, bb_xmax = 7, bb_ymin = 3, bb_ymax = 7\<rparr>"
    by (simp add: dot_bbox_cpp_fits[OF d])
  have lb: "line_bbox_cpp 5 5 8 5 1 10 10 2 =
              Inr \<lparr>bb_xmin = 2, bb_xmax = 10, bb_ymin = 2, bb_ymax = 8\<rparr>"
    by (simp add: line_bbox_cpp_fits[OF l])
  have out: "\<not> in_bbox \<lparr>bb_xmin = 3, bb_xmax = 7, bb_ymin = 3, bb_ymax = 7\<rparr> 1 1"
    "\<not> in_bbox \<lparr>bb_xmin = 2, bb_xmax = 10, bb_ymin = 2, bb_ymax = 8\<rparr> 1 1"
    by (simp_all add: in_bbox_def)
  from coverage_bounds_and_bbox [of 2 1 1 10 1 10 5 5 5 5 8 5]
    coverage_bounds_and_bbox [of 2 1 6 10 5 10 5 5 5 5 8 5] d l db lb out
  show ?thesis by simp
qed

text \<open>
  Why the range of the conversion matters: for the dot of radius \<open>3 * 10^9\<close> at (5,5)
  the conversions are undefined and \<^verbatim>\<open>dot_bbox_cpp\<close> returns no box, while the coverage
  of pixel (1,1) is 1.
\<close>

lemma dot_bbox_cpp_radius_too_large:
  "\<not> dot_fits 5 5 3000000000 \<and>
   dot_bbox_cpp 5 5 3000000000 10 10 = Inl IntConversion \<and>
   dot_coverage 3000000000 (dot_d2 5 5 1 1) = 1"
  by (simp add: dot_fits_def fits_int_def dot_bbox_cpp_def std_floor_def std_ceil_def
      int_of_double_def bind_err_def dot_coverage_def dot_d2_def Let_def)

section \<open>The samplers return primitives of the valid domain\<close>

lemma runif_range:
  "rng_contract G \<Longrightarrow> a \<le> b \<Longrightarrow> runif G a b s = (v, s') \<Longrightarrow> a \<le> v \<and> v \<le> b"
  unfolding rng_contract_def by (metis fst_conv)

lemma rbeta_range:
  "rng_contract G \<Longrightarrow> rbeta G a b s = (v, s') \<Longrightarrow> 0 < v \<and> v < 1"
  unfolding rng_contract_def by (metis fst_conv)

lemma first_crossing_range:
  "first_crossing ms r c i = 0 \<or>
   (i \<le> first_crossing ms r c i \<and> first_crossing ms r c i < i + int (length ms))"
proof (induction ms arbitrary: c i)
  case Nil
  then show ?case by simp
next
  case (Cons m ms)
  show ?case
    using Cons.IH[of "c + m" "i + 1"] by (auto simp: Let_def)
qed

lemma length_residual_mag: "length (residual_mag target canvas H W) = nat (H * W)"
  by (simp add: residual_mag_def)

lemma sdiv_nonneg: "0 \<le> k \<Longrightarrow> 0 < l \<Longrightarrow> k sdiv l = k div (l::int)"
  by (cases "k = 0") (simp_all add: signed_divide_int_def)

lemma smod_nonneg: "0 \<le> k \<Longrightarrow> 0 < l \<Longrightarrow> k smod l = k mod (l::int)"
  by (cases "k = 0") (simp_all add: signed_modulo_int_def)

lemma div_lt_cols:
  assumes "0 \<le> idx" "idx < H * W" "0 < (H::int)"
  shows "0 \<le> idx div H \<and> idx div H < W"
proof -
  have nn: "0 \<le> idx div H" using assms by (simp add: pos_imp_zdiv_nonneg_iff)
  have le: "H * (idx div H) \<le> idx"
    using pos_mod_sign[of H idx] mult_div_mod_eq[of H idx] assms(3) by linarith
  have "idx div H < W"
  proof (rule ccontr)
    assume "\<not> idx div H < W"
    then have "H * W \<le> H * (idx div H)" using assms(3) by (intro mult_left_mono) auto
    with le assms(2) show False by linarith
  qed
  with nn show ?thesis by simp
qed

lemma birth_seed_range:
  assumes G: "rng_contract G" and W: "1 \<le> W" and H: "1 \<le> H"
    and seed: "birth_seed G target canvas H W s = ((x0, y0), s')"
  shows "1 \<le> x0 \<and> x0 \<le> real_of_int W \<and> 1 \<le> y0 \<and> y0 \<le> real_of_int H"
proof (cases "fold (\<lambda>m mx. if m > mx then m else mx) (residual_mag target canvas H W) 0 < 1 / 10 ^ 6")
  case True
  then show ?thesis
    using seed W H
    by (auto simp: birth_seed_def Let_def split: prod.splits
        dest!: runif_range[OF G, rotated])
next
  case False
  define mx where "mx = fold (\<lambda>m mx. if m > mx then m else mx) (residual_mag target canvas H W) 0"
  define ws where "ws = map (\<lambda>m. m / mx) (residual_mag target canvas H W)"
  define r where "r = fst (runif G 0 (fold (\<lambda>m t. t + m) ws 0) s)"
  define idx where "idx = first_crossing ws r 0 0"
  have HW: "0 < H * W" using W H by simp
  have len: "int (length ws) = H * W" using HW by (simp add: ws_def length_residual_mag)
  have idx: "0 \<le> idx \<and> idx < H * W"
    using first_crossing_range[of ws r 0 0] len HW by (auto simp: idx_def)
  have xy: "x0 = real_of_int (idx sdiv H + 1)" "y0 = real_of_int (idx smod H + 1)"
    using seed False
    by (auto simp: birth_seed_def Let_def idx_def r_def ws_def mx_def split: prod.splits)
  have Hpos: "0 < H" using H by simp
  have col: "0 \<le> idx div H \<and> idx div H < W" using div_lt_cols idx Hpos by blast
  have e: "idx sdiv H = idx div H" "idx smod H = idx mod H"
    using idx Hpos by (simp_all add: sdiv_nonneg smod_nonneg)
  have "1 \<le> idx sdiv H + 1 \<and> idx sdiv H + 1 \<le> W \<and> 1 \<le> idx smod H + 1 \<and> idx smod H + 1 \<le> H"
    unfolding e using col pos_mod_sign[OF Hpos, of idx] pos_mod_bound[OF Hpos, of idx] by linarith
  then show ?thesis unfolding xy by simp
qed


lemma idx3_range:
  assumes "1 \<le> y" "y \<le> H" "1 \<le> x" "x \<le> W" "0 \<le> c" "c \<le> 2"
  shows "0 \<le> idx3 y x c H W \<and> idx3 y x c H W < 3 * (H * W)"
proof -
  have H: "0 \<le> H" and HW: "0 \<le> H * W" using assms by auto
  have a: "0 \<le> (x - 1) * H" using assms H by simp
  have b: "(x - 1) * H \<le> (W - 1) * H" using assms H by (intro mult_right_mono) auto
  have c0: "0 \<le> c * (H * W)" using assms HW by simp
  have c2: "c * (H * W) \<le> 2 * (H * W)" using assms HW by (intro mult_right_mono) auto
  have e: "(W - 1) * H = H * W - H" by (simp add: algebra_simps)
  have "idx3 y x c H W = (y - 1) + (x - 1) * H + c * (H * W)"
    by (simp add: idx3_def Let_def mult.assoc)
  then show ?thesis using a b c0 c2 e assms by linarith
qed

lemma samples_ok_nth:
  "samples_ok xs \<Longrightarrow> 0 \<le> i \<Longrightarrow> i < int (length xs) \<Longrightarrow> 0 \<le> xs ! nat i \<and> xs ! nat i \<le> 1"
  by (simp add: samples_ok_def)

lemma birth_dot_channel_range:
  assumes G: "rng_contract G" and ok: "samples_ok target"
    and ch: "birth_dot_channel G target H W y_idx x_idx c s = (v, s')"
  shows "0 \<le> v \<and> v \<le> 1"
proof (cases "idx3 y_idx x_idx c H W \<ge> 0 \<and> idx3 y_idx x_idx c H W < int (length target)")
  case True
  then have "v = target ! nat (idx3 y_idx x_idx c H W)"
    using ch by (simp add: birth_dot_channel_def Let_def)
  then show ?thesis using samples_ok_nth[OF ok] True by simp
next
  case False
  then have "runif G 0 1 s = (v, s')"
    using ch by (auto simp: birth_dot_channel_def Let_def)
  from runif_range[OF G _ this] show ?thesis by simp
qed

lemma c_int_range: "1 \<le> v \<Longrightarrow> v \<le> real_of_int n \<Longrightarrow> 0 \<le> c_int v - 1 \<and> c_int v - 1 < n"
proof -
  assume a: "1 \<le> v" "v \<le> real_of_int n"
  have "1 \<le> \<lfloor>v\<rfloor>" using a(1) by (simp add: le_floor_iff)
  moreover have "\<lfloor>v\<rfloor> \<le> n" using a(2) by (simp add: floor_le_iff) 
  ultimately show ?thesis using a(1) by (simp add: c_int_def)
qed

lemma sample_dot_birth_valid:
  assumes G: "rng_contract G" and W: "1 \<le> W" and H: "1 \<le> H"
    and lt: "length target = nat (H * W * 3)" and lc: "length canvas = nat (H * W * 3)"
    and ok: "samples_ok target"
  shows "\<exists>d s'. sample_dot_birth_datadriven_cpp G target canvas H W s = Inr (d, s') \<and> valid_dot W H d"
proof -
  have reads: "birth_reads_ok target canvas H W"
    using W H lt lc by (simp add: birth_reads_ok_def)
  obtain x0 y0 s1 where seed: "birth_seed G target canvas H W s = ((x0, y0), s1)"
    by (metis prod.exhaust)
  note pos = birth_seed_range[OF G W H seed]
  obtain n s2 where n: "rnorm G 0 (15 / 10) s1 = (n, s2)" by (metis prod.exhaust)
  obtain alpha s3 where al: "rbeta G 2 2 s2 = (alpha, s3)" by (metis prod.exhaust)
  obtain c0 s4 where c0: "birth_dot_channel G target H W (c_int y0 - 1) (c_int x0 - 1) 0 s3 = (c0, s4)"
    by (metis prod.exhaust)
  obtain c1 s5 where c1: "birth_dot_channel G target H W (c_int y0 - 1) (c_int x0 - 1) 1 s4 = (c1, s5)"
    by (metis prod.exhaust)
  obtain c2 s6 where c2: "birth_dot_channel G target H W (c_int y0 - 1) (c_int x0 - 1) 2 s5 = (c2, s6)"
    by (metis prod.exhaust)
  have inx: "0 \<le> c_int x0 - 1 \<and> c_int x0 - 1 < W" using c_int_range pos by blast
  have iny: "0 \<le> c_int y0 - 1 \<and> c_int y0 - 1 < H" using c_int_range pos by blast
  have res: "sample_dot_birth_datadriven_cpp G target canvas H W s =
     Inr (\<lparr>dot_x = x0, dot_y = y0, dot_radius = \<bar>n\<bar> + 1, dot_alpha = alpha, dot_col = (c0, c1, c2)\<rparr>, s6)"
    unfolding sample_dot_birth_datadriven_cpp_def
    by (simp only: Let_def reads inx iny seed n al c0 c1 c2 prod.case simp_thms if_True if_False)
  have "valid_dot W H \<lparr>dot_x = x0, dot_y = y0, dot_radius = \<bar>n\<bar> + 1, dot_alpha = alpha, dot_col = (c0, c1, c2)\<rparr>"
    using pos rbeta_range[OF G al] birth_dot_channel_range[OF G ok c0]
      birth_dot_channel_range[OF G ok c1] birth_dot_channel_range[OF G ok c2]
    by (simp add: valid_dot_def colour_ok_def)
  with res show ?thesis by blast
qed

lemma line_probe_inv:
  assumes ok: "samples_ok target" and len: "3 * (H * W) \<le> int (length target)"
    and inv: "probe_inv acc"
  shows "probe_inv (line_probe target H W x1 y1 x2 y2 i acc)"
proof -
  obtain c0 c1 c2 n where acc: "acc = ((c0, c1, c2), n)" by (metis prod.exhaust)
  define px where "px = min W (max 1 (c_round (x1 + real_of_int i / real_of_int (20 - 1) * (x2 - x1))))"
  define py where "py = min H (max 1 (c_round (y1 + real_of_int i / real_of_int (20 - 1) * (y2 - y1))))"
  show ?thesis
  proof (cases "px \<ge> 1 \<and> px \<le> W \<and> py \<ge> 1 \<and> py \<le> H")
    case True
    have r: "\<And>c. 0 \<le> c \<Longrightarrow> c \<le> 2 \<Longrightarrow>
        0 \<le> target ! nat (idx3 py px c H W) \<and> target ! nat (idx3 py px c H W) \<le> 1"
      using idx3_range[of py H px W] True len samples_ok_nth[OF ok] by force
    have "line_probe target H W x1 y1 x2 y2 i acc =
        ((c0 + target ! nat (idx3 py px 0 H W), c1 + target ! nat (idx3 py px 1 H W),
          c2 + target ! nat (idx3 py px 2 H W)), n + 1)"
      using True by (simp add: line_probe_def Let_def acc px_def py_def)
    then show ?thesis
      using inv r[of 0] r[of 1] r[of 2] by (simp add: probe_inv_def acc)
  next
    case False
    then have "line_probe target H W x1 y1 x2 y2 i acc = acc"
      by (auto simp add: line_probe_def Let_def px_def py_def)
    then show ?thesis using inv by simp
  qed
qed

lemma fold_line_probe_inv:
  assumes ok: "samples_ok target" and len: "3 * (H * W) \<le> int (length target)"
  shows "probe_inv acc \<Longrightarrow> probe_inv (fold (line_probe target H W x1 y1 x2 y2) is acc)"
  by (induction "is" arbitrary: acc) (simp_all add: line_probe_inv[OF ok len])

lemma max_min_range: "1 \<le> n \<Longrightarrow> 1 \<le> max 1 (min (real_of_int n) v) \<and> max 1 (min (real_of_int n) v) \<le> real_of_int n"
  by auto

lemma sample_line_birth_valid:
  assumes G: "rng_contract G" and W: "1 \<le> W" and H: "1 \<le> H"
    and lt: "length target = nat (H * W * 3)" and lc: "length canvas = nat (H * W * 3)"
    and ok: "samples_ok target"
  shows "\<exists>l s'. sample_line_birth_datadriven_cpp G target canvas H W s = Inr (l, s') \<and> valid_line W H l"
proof -
  have reads: "birth_reads_ok target canvas H W"
    using W H lt lc by (simp add: birth_reads_ok_def)
  have len: "3 * (H * W) \<le> int (length target)" using W H lt by simp
  obtain x0 y0 s1 where seed: "birth_seed G target canvas H W s = ((x0, y0), s1)"
    by (metis prod.exhaust)
  obtain ang s2 where ang: "runif G 0 (2 * pi) s1 = (ang, s2)" by (metis prod.exhaust)
  obtain n s3 where n: "rnorm G 0 35 s2 = (n, s3)" by (metis prod.exhaust)
  obtain nw s4 where nw: "rnorm G 0 3 s3 = (nw, s4)" by (metis prod.exhaust)
  obtain alpha s5 where al: "rbeta G 3 3 s4 = (alpha, s5)" by (metis prod.exhaust)
  define x1 where "x1 = max 1 (min (real_of_int W) (x0 - (\<bar>n\<bar> + 8) / 2 * cos ang))"
  define y1 where "y1 = max 1 (min (real_of_int H) (y0 - (\<bar>n\<bar> + 8) / 2 * sin ang))"
  define x2 where "x2 = max 1 (min (real_of_int W) (x0 + (\<bar>n\<bar> + 8) / 2 * cos ang))"
  define y2 where "y2 = max 1 (min (real_of_int H) (y0 + (\<bar>n\<bar> + 8) / 2 * sin ang))"
  obtain t0 t1 t2 cnt where fl: "fold (line_probe target H W x1 y1 x2 y2) [0..19] ((0, 0, 0), 0) = ((t0, t1, t2), cnt)"
    by (metis prod.exhaust)
  have "probe_inv ((0, 0, 0), 0)" by (simp add: probe_inv_def)
  from fold_line_probe_inv[OF ok len this, of x1 y1 x2 y2 "[0..19]"]
  have inv: "0 \<le> cnt \<and> 0 \<le> t0 \<and> t0 \<le> real_of_int cnt \<and> 0 \<le> t1 \<and> t1 \<le> real_of_int cnt \<and>
     0 \<le> t2 \<and> t2 \<le> real_of_int cnt"
    by (simp add: fl probe_inv_def)
  define col where "col = (if cnt > 0 then (t0 / real_of_int cnt, t1 / real_of_int cnt, t2 / real_of_int cnt) else (t0, t1, t2))"
  have col: "colour_ok col"
    using inv by (auto simp: col_def colour_ok_def divide_le_eq)
  have res: "sample_line_birth_datadriven_cpp G target canvas H W s =
     Inr (\<lparr>line_x1 = x1, line_y1 = y1, line_x2 = x2, line_y2 = y2, line_w = \<bar>nw\<bar> + 1,
            line_alpha = alpha, line_col = col\<rparr>, s5)"
    unfolding sample_line_birth_datadriven_cpp_def
    by (simp only: Let_def reads seed ang n nw al prod.case simp_thms if_True if_False
        x1_def[symmetric] y1_def[symmetric] x2_def[symmetric] y2_def[symmetric] fl col_def)
  have "valid_line W H \<lparr>line_x1 = x1, line_y1 = y1, line_x2 = x2, line_y2 = y2, line_w = \<bar>nw\<bar> + 1,
            line_alpha = alpha, line_col = col\<rparr>"
    using rbeta_range[OF G al] col max_min_range[OF W] max_min_range[OF H]
    by (simp add: valid_line_def x1_def y1_def x2_def y2_def)
  with res show ?thesis by blast
qed

lemma sample_dot_prior_valid:
  assumes G: "rng_contract G" and W: "1 \<le> W" and H: "1 \<le> H"
  shows "valid_dot W H (fst (sample_dot_prior_cpp G W H s))"
  using W H
  by (auto simp: sample_dot_prior_cpp_def valid_dot_def colour_ok_def Let_def
      split: prod.splits dest!: runif_range[OF G, rotated] rbeta_range[OF G])

lemma jitter_dot_valid:
  assumes W: "1 \<le> W" and H: "1 \<le> H"
  shows "valid_dot W H (fst (jitter_dot_cpp G d W H s_xy s_r s_a s_c s))"
  using W H
  by (auto simp: jitter_dot_cpp_def valid_dot_def colour_ok_def Let_def
      split: prod.splits)

lemma sample_line_prior_valid:
  assumes G: "rng_contract G" and W: "1 \<le> W" and H: "1 \<le> H"
  shows "valid_line W H (fst (sample_line_prior_cpp G W H s))"
  using W H
  by (auto simp: sample_line_prior_cpp_def valid_line_def colour_ok_def Let_def
      split: prod.splits dest!: runif_range[OF G, rotated] rbeta_range[OF G])

lemma jitter_line_valid:
  assumes W: "1 \<le> W" and H: "1 \<le> H"
  shows "valid_line W H (fst (jitter_line_cpp G l W H s_xy s_w s_a s_c s))"
  using W H
  by (auto simp: jitter_line_cpp_def valid_line_def colour_ok_def Let_def
      split: prod.splits)

text \<open>
  Claim C8. Let the generator keep its contract (uniform draws within their bounds, Beta
  draws strictly between 0 and 1, normal draws arbitrary), let the canvas be at least
  1 by 1, and let target and canvas hold \<open>H * W * 3\<close> samples, those of the target in
  \<open>[0, 1]\<close>. Then each of the six samplers returns a primitive whose positions lie in
  \<open>[1, W] \<times> [1, H]\<close>, whose radius is at least 1 or whose width is positive, whose
  alpha lies strictly between 0 and 1 and whose colour channels lie in \<open>[0, 1]\<close>; the
  two birth samplers do not fault. The jitter samplers need nothing of their input.
\<close>

theorem samplers_return_valid_primitives:
  assumes "rng_contract G" and "1 \<le> W" and "1 \<le> H"
    and "length target = nat (H * W * 3)" and "length canvas = nat (H * W * 3)"
    and "samples_ok target"
  shows "valid_dot W H (fst (sample_dot_prior_cpp G W H s)) \<and>
         valid_line W H (fst (sample_line_prior_cpp G W H s)) \<and>
         valid_dot W H (fst (jitter_dot_cpp G d W H s_xy s_r s_a s_c s)) \<and>
         valid_line W H (fst (jitter_line_cpp G l W H s_xy s_w s_a s_c s)) \<and>
         (\<exists>d' s'. sample_dot_birth_datadriven_cpp G target canvas H W s = Inr (d', s') \<and>
                   valid_dot W H d') \<and>
         (\<exists>l' s'. sample_line_birth_datadriven_cpp G target canvas H W s = Inr (l', s') \<and>
                   valid_line W H l')"
proof (intro conjI)
  show "valid_dot W H (fst (sample_dot_prior_cpp G W H s))"
    by (rule sample_dot_prior_valid[OF assms(1,2,3)])
  show "valid_line W H (fst (sample_line_prior_cpp G W H s))"
    by (rule sample_line_prior_valid[OF assms(1,2,3)])
  show "valid_dot W H (fst (jitter_dot_cpp G d W H s_xy s_r s_a s_c s))"
    by (rule jitter_dot_valid[OF assms(2,3)])
  show "valid_line W H (fst (jitter_line_cpp G l W H s_xy s_w s_a s_c s))"
    by (rule jitter_line_valid[OF assms(2,3)])
  show "\<exists>d' s'. sample_dot_birth_datadriven_cpp G target canvas H W s = Inr (d', s') \<and>
                  valid_dot W H d'"
    by (rule sample_dot_birth_valid[OF assms])
  show "\<exists>l' s'. sample_line_birth_datadriven_cpp G target canvas H W s = Inr (l', s') \<and>
                  valid_line W H l'"
    by (rule sample_line_birth_valid[OF assms])
qed

lemma mid_rng_contract: "rng_contract mid_rng"
  by (simp add: rng_contract_def mid_rng_def)

text \<open>
  The theorem for the midpoint generator on the 4 by 4 scenario, jittering the dot and the
  line that the prior samplers return.
\<close>

theorem samplers_return_valid_primitives_witness:
  "rng_contract mid_rng \<and> (1::int) \<le> 4 \<and>
   length target_4x4 = nat (4 * 4 * 3) \<and> length canvas_4x4 = nat (4 * 4 * 3) \<and>
   samples_ok target_4x4 \<and>
   valid_dot 4 4 (fst (sample_dot_prior_cpp mid_rng 4 4 0)) \<and>
   valid_line 4 4 (fst (sample_line_prior_cpp mid_rng 4 4 0)) \<and>
   valid_dot 4 4 (fst (jitter_dot_cpp mid_rng
     \<lparr>dot_x = 9, dot_y = - 3, dot_radius = 0, dot_alpha = 2, dot_col = (5, - 1, 1 / 2)\<rparr>
     4 4 3 1 (1 / 10) (8 / 100) 0)) \<and>
   valid_line 4 4 (fst (jitter_line_cpp mid_rng
     \<lparr>line_x1 = 9, line_y1 = - 3, line_x2 = 0, line_y2 = 7, line_w = - 1, line_alpha = 2,
      line_col = (5, - 1, 1 / 2)\<rparr>
     4 4 3 (6 / 10) (1 / 10) (8 / 100) 0)) \<and>
   (\<exists>d' s'. sample_dot_birth_datadriven_cpp mid_rng target_4x4 canvas_4x4 4 4 0 = Inr (d', s') \<and>
             valid_dot 4 4 d') \<and>
   (\<exists>l' s'. sample_line_birth_datadriven_cpp mid_rng target_4x4 canvas_4x4 4 4 0 = Inr (l', s') \<and>
             valid_line 4 4 l')"
proof -
  have len: "length target_4x4 = nat (4 * 4 * 3)" "length canvas_4x4 = nat (4 * 4 * 3)"
    by (simp_all add: target_4x4_def canvas_4x4_def)
  have ok: "samples_ok target_4x4"
    unfolding samples_ok_def target_4x4_def
    by (intro ballI) (auto dest!: set_update_subset_insert[THEN subsetD])
  have dims: "(1::int) \<le> 4" by simp
  show ?thesis
    using samplers_return_valid_primitives [OF mid_rng_contract dims dims len ok,
        where s = 0 and s_xy = 3 and s_r = 1 and s_a = "1 / 10" and s_c = "8 / 100"
          and s_w = "6 / 10"
          and d = "\<lparr>dot_x = 9, dot_y = - 3, dot_radius = 0, dot_alpha = 2,
                    dot_col = (5, - 1, 1 / 2)\<rparr>"
          and l = "\<lparr>line_x1 = 9, line_y1 = - 3, line_x2 = 0, line_y2 = 7, line_w = - 1,
                    line_alpha = 2, line_col = (5, - 1, 1 / 2)\<rparr>"]
      mid_rng_contract len ok dims
    by (intro conjI) (elim conjE, assumption)+
qed

section \<open>The residual-driven seed on the 4 by 4 scenario\<close>

lemma residual_mag_4x4:
  "residual_mag target_4x4 canvas_4x4 4 4 =
     [0, 0, 0, 0, 0, sqrt 2, 0, 0, 0, 0, 0, 0, 0, 0, 0, 0]"
  by (simp add: residual_mag_def residual_at_def target_4x4_def canvas_4x4_def upto_rec1 Let_def)

lemma sqrt2_not_small: "\<not> sqrt 2 * 1000000 < 1"
proof -
  have "1 \<le> sqrt 2" by simp
  then show ?thesis by linarith
qed

lemma birth_seed_4x4:
  "birth_seed G target_4x4 canvas_4x4 4 4 s =
     (let (r, s) = runif G 0 1 s;
          idx = first_crossing [0, 0, 0, 0, 0, 1, 0, 0, 0, 0, 0, 0, 0, 0, 0, 0] r 0 0
      in ((real_of_int (idx sdiv 4 + 1), real_of_int (idx smod 4 + 1)), s))"
  by (simp add: birth_seed_def residual_mag_4x4 sqrt2_not_small Let_def del: first_crossing.simps)

lemma first_crossing_4x4:
  "0 < r \<Longrightarrow> r \<le> 1 \<Longrightarrow>
   first_crossing [0, 0, 0, 0, 0, 1, 0, 0, 0, 0, 0, 0, 0, 0, 0, 0] r 0 0 = 5"
  by (simp add: Let_def)

lemma first_crossing_4x4_zero:
  "first_crossing [0, 0, 0, 0, 0, 1, 0, 0, 0, 0, 0, 0, 0, 0, 0, 0] 0 0 0 = 0"
  by (simp add: Let_def)

text \<open>
  Claim C9. In the 4 by 4 scenario the total weight is 1, and the threshold is the draw
  \<^verbatim>\<open>R::runif(0.0, total_weight)\<close>, which lies strictly between its bounds. For every
  generator and state whose draw of the threshold lies strictly between 0 and 1, the
  seed that both birth samplers compute is pixel (2,2), the only pixel with a nonzero
  residual; the dot that \<^verbatim>\<open>sample_dot_birth_datadriven_cpp\<close> returns is centred there, and
  the line that \<^verbatim>\<open>sample_line_birth_datadriven_cpp\<close> returns is laid through it: its
  endpoints are the points at half the drawn length from (2,2) on either side, in the
  drawn direction, clipped to the canvas.
\<close>

theorem birth_seed_selects_residual_pixel:
  assumes "0 < fst (runif G 0 1 s)" and "fst (runif G 0 1 s) < 1"
  shows "fst (birth_seed G target_4x4 canvas_4x4 4 4 s) = (2, 2) \<and>
         (\<exists>d s'. sample_dot_birth_datadriven_cpp G target_4x4 canvas_4x4 4 4 s = Inr (d, s') \<and>
                  dot_x d = 2 \<and> dot_y d = 2) \<and>
         (\<exists>l s'. sample_line_birth_datadriven_cpp G target_4x4 canvas_4x4 4 4 s = Inr (l, s') \<and>
            (let s1 = snd (runif G 0 1 s);
                 ang = fst (runif G 0 (2 * pi) s1);
                 len = \<bar>fst (rnorm G 0 35 (snd (runif G 0 (2 * pi) s1)))\<bar> + 8
             in line_x1 l = max 1 (min 4 (2 - len / 2 * cos ang)) \<and>
                line_y1 l = max 1 (min 4 (2 - len / 2 * sin ang)) \<and>
                line_x2 l = max 1 (min 4 (2 + len / 2 * cos ang)) \<and>
                line_y2 l = max 1 (min 4 (2 + len / 2 * sin ang))))"
proof -
  obtain r s1 where r: "runif G 0 1 s = (r, s1)" by (metis prod.exhaust)
  have "0 < r" "r \<le> 1" using assms by (simp_all add: r)
  then have idx: "first_crossing [0, 0, 0, 0, 0, 1, 0, 0, 0, 0, 0, 0, 0, 0, 0, 0] r 0 0 = 5"
    by (rule first_crossing_4x4)
  have seed: "birth_seed G target_4x4 canvas_4x4 4 4 s = ((2, 2), s1)"
    by (simp add: birth_seed_4x4 r idx sdiv_nonneg smod_nonneg del: first_crossing.simps)
  have reads: "birth_reads_ok target_4x4 canvas_4x4 4 4"
    by (simp add: birth_reads_ok_def target_4x4_def canvas_4x4_def)
  have dot: "\<exists>d s'. sample_dot_birth_datadriven_cpp G target_4x4 canvas_4x4 4 4 s = Inr (d, s') \<and>
          dot_x d = 2 \<and> dot_y d = 2"
    using reads by (simp add: sample_dot_birth_datadriven_cpp_def seed Let_def split: prod.splits)
  obtain ang s2 where ang: "runif G 0 (2 * pi) s1 = (ang, s2)" by (metis prod.exhaust)
  obtain n s3 where n: "rnorm G 0 35 s2 = (n, s3)" by (metis prod.exhaust)
  have line: "\<exists>l s'. sample_line_birth_datadriven_cpp G target_4x4 canvas_4x4 4 4 s = Inr (l, s') \<and>
            (let s1 = snd (runif G 0 1 s);
                 ang = fst (runif G 0 (2 * pi) s1);
                 len = \<bar>fst (rnorm G 0 35 (snd (runif G 0 (2 * pi) s1)))\<bar> + 8
             in line_x1 l = max 1 (min 4 (2 - len / 2 * cos ang)) \<and>
                line_y1 l = max 1 (min 4 (2 - len / 2 * sin ang)) \<and>
                line_x2 l = max 1 (min 4 (2 + len / 2 * cos ang)) \<and>
                line_y2 l = max 1 (min 4 (2 + len / 2 * sin ang)))"
    using reads
    by (simp add: sample_line_birth_datadriven_cpp_def seed r ang n Let_def split: prod.splits
        del: fold_simps)
  from seed dot line show ?thesis by simp
qed

text \<open>
  The theorem for the midpoint generator: the threshold is \<open>1/2\<close>, the direction is
  \<open>pi\<close> and the length is 8, so the line runs from (4,2) to (1,2).
\<close>

theorem birth_seed_selects_residual_pixel_witness:
  "0 < fst (runif mid_rng 0 1 0) \<and> fst (runif mid_rng 0 1 0) < 1 \<and>
   fst (birth_seed mid_rng target_4x4 canvas_4x4 4 4 0) = (2, 2) \<and>
   (\<exists>d s'. sample_dot_birth_datadriven_cpp mid_rng target_4x4 canvas_4x4 4 4 0 = Inr (d, s') \<and>
            dot_x d = 2 \<and> dot_y d = 2) \<and>
   (\<exists>l s'. sample_line_birth_datadriven_cpp mid_rng target_4x4 canvas_4x4 4 4 0 = Inr (l, s') \<and>
            line_x1 l = 4 \<and> line_y1 l = 2 \<and> line_x2 l = 1 \<and> line_y2 l = 2)"
proof -
  have h: "0 < fst (runif mid_rng 0 1 0)" "fst (runif mid_rng 0 1 0) < 1"
    by (simp_all add: mid_rng_def)
  have g: "snd (runif mid_rng 0 1 0) = Suc 0" "fst (runif mid_rng 0 (2 * pi) (Suc 0)) = pi"
    "fst (rnorm mid_rng 0 35 (snd (runif mid_rng 0 (2 * pi) (Suc 0)))) = 0"
    by (simp_all add: mid_rng_def)
  from birth_seed_selects_residual_pixel [OF h] h show ?thesis
    by (simp add: g Let_def)
qed

text \<open>
  The threshold must be positive: at a threshold of exactly 0, which \<^verbatim>\<open>R::runif\<close> does
  not return, the running sum is 0 after the first pixel, \<^verbatim>\<open>cumsum >= r\<close> holds there,
  and the loop stops at flat pixel 0, that is pixel (1,1).
\<close>

lemma birth_seed_at_threshold_zero:
  "fst (runif low_rng 0 1 0) = 0 \<and>
   first_crossing [0, 0, 0, 0, 0, 1, 0, 0, 0, 0, 0, 0, 0, 0, 0, 0] 0 0 0 = 0 \<and>
   fst (birth_seed low_rng target_4x4 canvas_4x4 4 4 0) = (1, 1)"
  by (simp add: birth_seed_4x4 low_rng_def first_crossing_4x4_zero del: first_crossing.simps)

section \<open>Loops that can fault\<close>

lemma bind_err_Inl [simp]: "bind_err (Inl e) f = Inl e"
  by (simp add: bind_err_def)

lemma bind_err_Inr [simp]: "bind_err (Inr v) f = f v"
  by (simp add: bind_err_def)

lemma fold_bind_err_Inl: "fold (\<lambda>x r. bind_err r (f x)) xs (Inl e) = Inl e"
  by (induction xs) simp_all

lemma fold_rows_Inl:
  "fold (\<lambda>y. fold (\<lambda>x r. bind_err r (f y x)) xs) ys (Inl e) = Inl e"
  by (induction ys) (simp_all add: fold_bind_err_Inl)

text \<open>
  A loop nest whose body keeps an invariant and cannot fault on the pixels it visits
  ends without a fault, in a state that satisfies the invariant.
\<close>

lemma fold_bind_err_inv:
  assumes "\<And>x s. x \<in> set xs \<Longrightarrow> P s \<Longrightarrow> \<exists>s'. f x s = Inr s' \<and> P s'"
  shows "P s \<Longrightarrow> \<exists>s'. fold (\<lambda>x r. bind_err r (f x)) xs (Inr s) = Inr s' \<and> P s'"
  using assms
proof (induction xs arbitrary: s)
  case Nil
  then show ?case by simp
next
  case (Cons x xs)
  from Cons.prems(2)[of x s] Cons.prems(1) obtain s1 where s1: "f x s = Inr s1" "P s1"
    by auto
  from Cons.IH[OF s1(2)] Cons.prems(2) show ?case by (simp add: s1)
qed

lemma for_rect_err_inv:
  assumes body: "\<And>y x s. ymin \<le> y \<Longrightarrow> y \<le> ymax \<Longrightarrow> xmin \<le> x \<Longrightarrow> x \<le> xmax \<Longrightarrow> P s \<Longrightarrow>
            \<exists>s'. body y x s = Inr s' \<and> P s'"
    and P: "P s"
  shows "\<exists>s'. for_rect_err xmin xmax ymin ymax body s = Inr s' \<and> P s'"
proof -
  have row: "\<exists>s'. fold (\<lambda>x r. bind_err r (body y x)) [xmin..xmax] (Inr s) = Inr s' \<and> P s'"
    if "ymin \<le> y" "y \<le> ymax" "P s" for y s
    using that body by (intro fold_bind_err_inv) auto
  have "\<exists>s'. fold (\<lambda>y. fold (\<lambda>x r. bind_err r (body y x)) [xmin..xmax]) ys (Inr s) = Inr s' \<and> P s'"
    if "set ys \<subseteq> {ymin..ymax}" for ys
    using that P
  proof (induction ys arbitrary: s)
    case Nil
    then show ?case by simp
  next
    case (Cons y ys)
    from row[of y s] Cons.prems obtain s1 where
      s1: "fold (\<lambda>x r. bind_err r (body y x)) [xmin..xmax] (Inr s) = Inr s1" "P s1"
      by auto
    from Cons.IH[OF _ s1(2)] Cons.prems(1) show ?case by (simp add: s1)
  qed
  from this[of "[ymin..ymax]"] show ?thesis
    by (simp add: for_rect_err_def for_rect_def)
qed

section \<open>The sum of squared errors: what the two functions compute\<close>

lemma upto_0_2: "[0..2] = [0, 1, 2::int]"
  by (simp add: upto_rec1)

lemma rd_in_range: "0 \<le> i \<Longrightarrow> i < int (length xs) \<Longrightarrow> rd xs i = Inr (xs ! nat i)"
  by (simp add: rd_def)

lemma sse_pixel_in_canvas:
  assumes "1 \<le> y" "y \<le> H" "1 \<le> x" "x \<le> W"
    and "int (length target) = 3 * (H * W)" "int (length canvas) = 3 * (H * W)"
  shows "sse_pixel target canvas H W y x acc = Inr (acc + pixel_sq_err target canvas H W y x)"
proof -
  have r: "rd target (idx3 y x c H W) = Inr (target ! nat (idx3 y x c H W))"
          "rd canvas (idx3 y x c H W) = Inr (canvas ! nat (idx3 y x c H W))"
    if "0 \<le> c" "c \<le> 2" for c
    using idx3_range[OF assms(1-4) that] assms(5,6) by (simp_all add: rd_in_range)
  show ?thesis
    unfolding sse_pixel_def Let_def
    by (simp add: r pixel_sq_err_def upto_0_2 power2_eq_square)
qed

lemma sse_row:
  assumes "1 \<le> y" "y \<le> H" "set xs \<subseteq> {1..W}"
    and "int (length target) = 3 * (H * W)" "int (length canvas) = 3 * (H * W)"
  shows "fold (\<lambda>x r. bind_err r (sse_pixel target canvas H W y x)) xs (Inr acc) =
         Inr (acc + (\<Sum>x\<leftarrow>xs. pixel_sq_err target canvas H W y x))"
  using assms(3)
proof (induction xs arbitrary: acc)
  case Nil
  then show ?case by simp
next
  case (Cons x xs)
  then have "1 \<le> x" "x \<le> W" by auto
  from sse_pixel_in_canvas[OF assms(1,2) this assms(4,5)] Cons show ?case
    by (simp add: add.assoc)
qed

lemma sse_rows:
  assumes "set ys \<subseteq> {1..H}" "set xs \<subseteq> {1..W}"
    and "int (length target) = 3 * (H * W)" "int (length canvas) = 3 * (H * W)"
  shows "fold (\<lambda>y. fold (\<lambda>x r. bind_err r (sse_pixel target canvas H W y x)) xs) ys (Inr acc) =
         Inr (acc + (\<Sum>y\<leftarrow>ys. \<Sum>x\<leftarrow>xs. pixel_sq_err target canvas H W y x))"
  using assms(1)
proof (induction ys arbitrary: acc)
  case Nil
  then show ?case by simp
next
  case (Cons y ys)
  then have "1 \<le> y" "y \<le> H" by auto
  from sse_row[OF this assms(2,3,4)] Cons show ?case
    by (simp add: add.assoc)
qed

lemma sse_spec_pixels:
  "sse_spec target canvas H W xmin xmax ymin ymax =
     (\<Sum>y\<leftarrow>[ymin..ymax]. \<Sum>x\<leftarrow>[xmin..xmax]. pixel_sq_err target canvas H W y x)"
  by (simp add: sse_spec_def pixel_sq_err_def)

text \<open>
  Over a rectangle inside the canvas, with buffers of \<open>H * W * 3\<close> samples,
  \<^verbatim>\<open>sse_bbox_cpp\<close> does not fault and returns the sum of the specification.
\<close>

lemma sse_bbox_cpp_correct:
  assumes "1 \<le> xmin" "xmax \<le> W" "1 \<le> ymin" "ymax \<le> H"
    and "int (length target) = 3 * (H * W)" "int (length canvas) = 3 * (H * W)"
  shows "sse_bbox_cpp target canvas H W xmin xmax ymin ymax =
         Inr (sse_spec target canvas H W xmin xmax ymin ymax)"
proof -
  have "set [ymin..ymax] \<subseteq> {1..H}" "set [xmin..xmax] \<subseteq> {1..W}" using assms by auto
  from sse_rows[OF this assms(5,6), of 0] show ?thesis
    by (simp add: sse_bbox_cpp_def for_rect_err_def for_rect_def sse_spec_pixels)
qed

lemma pixel_sq_err_nonneg: "0 \<le> pixel_sq_err target canvas H W y x"
  by (simp add: pixel_sq_err_def upto_0_2)

lemma row_sq_err_nonneg: "0 \<le> (\<Sum>x\<leftarrow>xs. pixel_sq_err target canvas H W y x)"
  by (intro sum_list_nonneg) (auto simp: pixel_sq_err_nonneg)

lemma sse_spec_nonneg: "0 \<le> sse_spec target canvas H W xmin xmax ymin ymax"
  unfolding sse_spec_pixels by (intro sum_list_nonneg) (auto simp: row_sq_err_nonneg)

lemma pixel_sq_err_zero_iff:
  "pixel_sq_err target canvas H W y x = 0 \<longleftrightarrow>
     (\<forall>c \<in> {0..2}. target ! nat (idx3 y x c H W) = canvas ! nat (idx3 y x c H W))"
proof -
  have "{0..2::int} = {0, 1, 2}" by auto
  then show ?thesis
    by (simp add: pixel_sq_err_def upto_0_2 add_nonneg_eq_0_iff)
qed

lemma sse_spec_zero_iff:
  "sse_spec target canvas H W xmin xmax ymin ymax = 0 \<longleftrightarrow>
     (\<forall>y \<in> {ymin..ymax}. \<forall>x \<in> {xmin..xmax}. \<forall>c \<in> {0..2}.
        target ! nat (idx3 y x c H W) = canvas ! nat (idx3 y x c H W))"
proof -
  have row: "(\<Sum>x\<leftarrow>[xmin..xmax]. pixel_sq_err target canvas H W y x) = 0 \<longleftrightarrow>
      (\<forall>x \<in> {xmin..xmax}. pixel_sq_err target canvas H W y x = 0)" for y
    by (subst sum_list_nonneg_eq_0_iff) (auto simp: pixel_sq_err_nonneg)
  note rows = row_sq_err_nonneg
  have "sse_spec target canvas H W xmin xmax ymin ymax = 0 \<longleftrightarrow>
      (\<forall>y \<in> {ymin..ymax}. (\<Sum>x\<leftarrow>[xmin..xmax]. pixel_sq_err target canvas H W y x) = 0)"
    unfolding sse_spec_pixels
    by (subst sum_list_nonneg_eq_0_iff) (auto simp: rows)
  then show ?thesis by (simp add: row pixel_sq_err_zero_iff)
qed

lemma sse_spec_split_columns:
  assumes "xmin \<le> xm + 1" "xm \<le> xmax"
  shows "sse_spec target canvas H W xmin xmax ymin ymax =
         sse_spec target canvas H W xmin xm ymin ymax +
         sse_spec target canvas H W (xm + 1) xmax ymin ymax"
proof -
  have "[xmin..xmax] = [xmin..xm] @ [xm + 1..xmax]"
  proof (cases "xmin \<le> xm")
    case True
    then show ?thesis using assms by (simp add: upto_split2 [of xmin xm xmax])
  next
    case False
    then have "xmin = xm + 1" using assms by simp
    then show ?thesis by simp
  qed
  then show ?thesis
    by (simp add: sse_spec_pixels sum_list_addf)
qed

lemma sse_spec_split_rows:
  assumes "ymin \<le> ym + 1" "ym \<le> ymax"
  shows "sse_spec target canvas H W xmin xmax ymin ymax =
         sse_spec target canvas H W xmin xmax ymin ym +
         sse_spec target canvas H W xmin xmax (ym + 1) ymax"
proof -
  have "[ymin..ymax] = [ymin..ym] @ [ym + 1..ymax]"
  proof (cases "ymin \<le> ym")
    case True
    then show ?thesis using assms by (simp add: upto_split2 [of ymin ym ymax])
  next
    case False
    then have "ymin = ym + 1" using assms by simp
    then show ?thesis by simp
  qed
  then show ?thesis
    by (simp add: sse_spec_pixels)
qed

text \<open>
  \<^verbatim>\<open>sse_bbox_dots_cpp\<close> tests the pixel and the index before each read: it returns a value
  for every rectangle and for buffers of any length.
\<close>

lemma sse_dots_channel_total:
  "\<exists>v. sse_dots_channel target canvas H W y_idx x_idx c sse = Inr v"
  by (simp add: sse_dots_channel_def Let_def rd_def)

lemma sse_dots_pixel_total: "\<exists>v. sse_dots_pixel target canvas H W y x sse = Inr v"
proof -
  have "\<exists>v. fold (\<lambda>c r. bind_err r (sse_dots_channel target canvas H W (y - 1) (x - 1) c))
              [0, 1, 2] (Inr sse) = Inr v \<and> True"
    by (intro fold_bind_err_inv) (auto simp: sse_dots_channel_total)
  then show ?thesis by (simp add: sse_dots_pixel_def Let_def)
qed

lemma sse_bbox_dots_cpp_total:
  "\<exists>v. sse_bbox_dots_cpp target canvas H W xmin xmax ymin ymax = Inr v"
proof -
  have "\<exists>v. for_rect_err xmin xmax ymin ymax (sse_dots_pixel target canvas H W) 0 = Inr v \<and> True"
    by (intro for_rect_err_inv) (auto simp: sse_dots_pixel_total)
  then show ?thesis by (simp add: sse_bbox_dots_cpp_def)
qed

section \<open>The render functions for lines, sample by sample\<close>

subsection \<open>The index of a sample\<close>

lemma small_multiple_zero:
  fixes H d k :: int
  assumes "0 < H" "- H < d" "d < H" "d = H * k"
  shows "k = 0"
proof (rule ccontr)
  assume "k \<noteq> 0"
  then consider "1 \<le> k" | "k \<le> - 1" by linarith
  then show False
  proof cases
    case 1
    then have "H * 1 \<le> H * k" using assms(1) by (intro mult_left_mono) auto
    with assms show False by simp
  next
    case 2
    then have "H * k \<le> H * (- 1)" using assms(1) by (intro mult_left_mono) auto
    with assms show False by simp
  qed
qed

lemma idx3_inj:
  assumes p: "1 \<le> y" "y \<le> H" "1 \<le> x" "x \<le> W"
    and p': "1 \<le> y'" "y' \<le> H" "1 \<le> x'" "x' \<le> W"
    and c: "0 \<le> c" "c \<le> 2" "0 \<le> c'" "c' \<le> 2"
    and eq: "idx3 y x c H W = idx3 y' x' c' H W"
  shows "y = y' \<and> x = x' \<and> c = c'"
proof -
  have Hpos: "0 < H" and Wpos: "0 < W" using p by auto
  have e: "(y - 1) + (x - 1) * H + c * H * W = (y' - 1) + (x' - 1) * H + c' * H * W"
    using eq by (simp add: idx3_def Let_def)
  then have "y - y' = H * ((x' - x) + (c' - c) * W)"
    by (simp add: algebra_simps)
  from small_multiple_zero[OF Hpos _ _ this] p p'
  have k1: "(x' - x) + (c' - c) * W = 0" by simp
  with \<open>y - y' = H * ((x' - x) + (c' - c) * W)\<close> have y: "y = y'" by simp
  from k1 have "x - x' = W * (c' - c)" by (simp add: algebra_simps)
  from small_multiple_zero[OF Wpos _ _ this] p p'
  have k2: "c' - c = 0" by simp
  with \<open>x - x' = W * (c' - c)\<close> have "x = x'" by simp
  with y k2 show ?thesis by simp
qed

lemma canvas_length:
  assumes "length cv = nat (H * W * 3)" "1 \<le> H" "1 \<le> W"
  shows "int (length cv) = 3 * (H * W)"
  using assms by simp

lemma sample_index:
  assumes "length cv = nat (H * W * 3)" "1 \<le> y" "y \<le> H" "1 \<le> x" "x \<le> W" "0 \<le> c" "c \<le> 2"
  shows "0 \<le> idx3 y x c H W \<and> idx3 y x c H W < int (length cv) \<and>
         nat (idx3 y x c H W) < length cv"
proof -
  have "int (length cv) = 3 * (H * W)" using assms by (intro canvas_length) auto
  with idx3_range[OF assms(2-7)] show ?thesis by linarith
qed

subsection \<open>Painting one pixel\<close>

lemma length_paint [simp]: "length (paint H W y x g cv) = length cv"
  by (simp add: paint_def)

lemma paint_sample:
  assumes len: "length cv = nat (H * W * 3)"
    and p: "1 \<le> y" "y \<le> H" "1 \<le> x" "x \<le> W"
    and p': "1 \<le> y'" "y' \<le> H" "1 \<le> x'" "x' \<le> W"
    and c': "0 \<le> c'" "c' \<le> 2"
  shows "paint H W y x g cv ! nat (idx3 y' x' c' H W) =
         (if y' = y \<and> x' = x then g c' (cv ! nat (idx3 y x c' H W))
          else cv ! nat (idx3 y' x' c' H W))"
proof -
  have in0: "0 \<le> idx3 y x c H W \<and> nat (idx3 y x c H W) < length cv" if "0 \<le> c" "c \<le> 2" for c
    using sample_index[OF len p that] by simp
  have in': "0 \<le> idx3 y' x' c' H W \<and> nat (idx3 y' x' c' H W) < length cv"
    using sample_index[OF len p' c'] by simp
  have neq: "nat (idx3 y x c H W) \<noteq> nat (idx3 y' x' c' H W)"
    if "0 \<le> c" "c \<le> 2" "\<not> (y' = y \<and> x' = x \<and> c' = c)" for c
  proof
    assume "nat (idx3 y x c H W) = nat (idx3 y' x' c' H W)"
    then have "idx3 y x c H W = idx3 y' x' c' H W" using in0[OF that(1,2)] in' by linarith
    from idx3_inj[OF p p' that(1,2) c' this] that(3) show False by simp
  qed
  show ?thesis
  proof (cases "y' = y \<and> x' = x")
    case True
    have "c' = 0 \<or> c' = 1 \<or> c' = 2" using c' by linarith
    then show ?thesis
      using True in0[of 0] in0[of 1] in0[of 2] neq[of 0] neq[of 1] neq[of 2]
      by (elim disjE) (simp_all add: paint_def)
  next
    case False
    have n: "nat (idx3 y x 0 H W) \<noteq> nat (idx3 y' x' c' H W)"
            "nat (idx3 y x 1 H W) \<noteq> nat (idx3 y' x' c' H W)"
            "nat (idx3 y x 2 H W) \<noteq> nat (idx3 y' x' c' H W)"
      using neq[of 0] neq[of 1] neq[of 2] False by auto
    have "paint H W y x g cv ! nat (idx3 y' x' c' H W) = cv ! nat (idx3 y' x' c' H W)"
      by (simp add: paint_def n)
    then show ?thesis
      using False by auto
  qed
qed

subsection \<open>Painting a list of distinct pixels\<close>

lemma length_paint_all [simp]: "length (paint_all H W g ps cv) = length cv"
  unfolding paint_all_def by (induction ps arbitrary: cv) auto

lemma paint_all_sample:
  assumes len: "length cv = nat (H * W * 3)"
    and ps: "distinct ps" "\<And>y x. (y, x) \<in> set ps \<Longrightarrow> 1 \<le> y \<and> y \<le> H \<and> 1 \<le> x \<and> x \<le> W"
    and p: "1 \<le> y" "y \<le> H" "1 \<le> x" "x \<le> W" and c: "0 \<le> c" "c \<le> 2"
  shows "paint_all H W g ps cv ! nat (idx3 y x c H W) =
         (if (y, x) \<in> set ps then g y x c (cv ! nat (idx3 y x c H W))
          else cv ! nat (idx3 y x c H W))"
  using len ps
proof (induction ps arbitrary: cv)
  case Nil
  then show ?case by (simp add: paint_all_def)
next
  case (Cons q ps)
  obtain qy qx where q: "q = (qy, qx)" by (cases q)
  have qin: "1 \<le> qy" "qy \<le> H" "1 \<le> qx" "qx \<le> W" using Cons.prems(3)[of qy qx] q by auto
  let ?cv = "paint H W qy qx (g qy qx) cv"
  have len': "length ?cv = nat (H * W * 3)" using Cons.prems(1) by simp
  have step: "paint_all H W g (q # ps) cv = paint_all H W g ps ?cv"
    by (simp add: paint_all_def q)
  have IH: "paint_all H W g ps ?cv ! nat (idx3 y x c H W) =
         (if (y, x) \<in> set ps then g y x c (?cv ! nat (idx3 y x c H W))
          else ?cv ! nat (idx3 y x c H W))"
    using Cons.prems by (intro Cons.IH[OF len']) auto
  have first: "?cv ! nat (idx3 y x c H W) =
      (if y = qy \<and> x = qx then g qy qx c (cv ! nat (idx3 qy qx c H W))
       else cv ! nat (idx3 y x c H W))"
    by (rule paint_sample[OF Cons.prems(1) qin p c])
  have notin: "(qy, qx) \<notin> set ps" using Cons.prems(2) q by simp
  show ?case
    unfolding step IH first using notin q by auto
qed

subsection \<open>The loop nest as a fold over the pixels of the rectangle\<close>

lemma for_rect_product:
  "for_rect xmin xmax ymin ymax f s =
     fold (\<lambda>(y, x). f y x) (List.product [ymin..ymax] [xmin..xmax]) s"
proof -
  have row: "fold (\<lambda>(y, x). f y x) (map (Pair y) xs) s = fold (f y) xs s" for y xs s
    by (induction xs arbitrary: s) simp_all
  have "fold (\<lambda>y. fold (f y) xs) ys s = fold (\<lambda>(y, x). f y x) (List.product ys xs) s" for ys xs
    by (induction ys arbitrary: s) (simp_all add: row)
  then show ?thesis by (simp add: for_rect_def)
qed

lemma fold_err_pixels:
  assumes body: "\<And>y x cv. (y, x) \<in> set ps \<Longrightarrow> length cv = n \<Longrightarrow>
              body y x cv = Inr (h y x cv) \<and> length (h y x cv) = n"
    and len: "length cv = n"
  shows "fold (\<lambda>(y, x) r. bind_err r (body y x)) ps (Inr cv) = Inr (fold (\<lambda>(y, x). h y x) ps cv)"
  using assms
proof (induction ps arbitrary: cv)
  case Nil
  then show ?case by simp
next
  case (Cons q ps)
  obtain y x where q: "q = (y, x)" by (cases q)
  from Cons.prems(1)[of y x cv] Cons.prems(2) q
  have b: "body y x cv = Inr (h y x cv)" "length (h y x cv) = n" by auto
  have "fold (\<lambda>(y, x) r. bind_err r (body y x)) ps (Inr (h y x cv)) =
        Inr (fold (\<lambda>(y, x). h y x) ps (h y x cv))"
    using Cons.prems(1) b(2) by (intro Cons.IH) auto
  then show ?case by (simp add: q b(1))
qed

lemma rect_pixels_set:
  "(y, x) \<in> set (List.product [ymin..ymax] [xmin..xmax]) \<longleftrightarrow>
     ymin \<le> y \<and> y \<le> ymax \<and> xmin \<le> x \<and> x \<le> xmax"
  by auto

lemma rect_pixels_distinct: "distinct (List.product [ymin..ymax] [xmin..xmax])"
  by (simp add: distinct_product)

subsection \<open>One pixel of a line\<close>

lemma channels_distinct:
  assumes "1 \<le> y" "y \<le> H" "1 \<le> x" "x \<le> W"
  shows "idx3 y x 0 H W \<noteq> idx3 y x 1 H W" "idx3 y x 0 H W \<noteq> idx3 y x 2 H W"
        "idx3 y x 1 H W \<noteq> idx3 y x 2 H W"
  using idx3_inj[OF assms assms, of 0 1] idx3_inj[OF assms assms, of 0 2]
    idx3_inj[OF assms assms, of 1 2] by auto

lemma line_reset_pixel_paint:
  assumes len: "length cv = nat (H * W * 3)" and p: "1 \<le> y" "y \<le> H" "1 \<le> x" "x \<le> W"
  shows "line_reset_pixel H W y x cv = Inr (paint H W y x (\<lambda>c v. 1) cv)"
proof -
  have i: "0 \<le> idx3 y x c H W \<and> idx3 y x c H W < int (length cv) \<and>
           nat (idx3 y x c H W) < length cv" if "0 \<le> c" "c \<le> 2" for c
    using sample_index[OF len p that] .
  show ?thesis
    using i[of 0] i[of 1] i[of 2]
    by (simp add: line_reset_pixel_def paint_def wr_def)
qed

lemma line_pixel_paint:
  assumes len: "length cv = nat (H * W * 3)" and p: "1 \<le> y" "y \<le> H" "1 \<le> x" "x \<le> W"
  shows "line_pixel H W (line_x1 l) (line_y1 l) (line_x2 l) (line_y2 l) (line_w l)
           (line_alpha l) (line_col l) y x cv =
         Inr (paint H W y x (line_blend l y x) cv)"
proof (cases "line_coverage (line_x1 l) (line_y1 l) (line_x2 l) (line_y2 l) (line_w l) x y > 0
              \<and> line_alpha l > 0")
  case True
  have i: "0 \<le> idx3 y x c H W \<and> idx3 y x c H W < int (length cv) \<and>
           nat (idx3 y x c H W) < length cv" if "0 \<le> c" "c \<le> 2" for c
    using sample_index[OF len p that] .
  have d: "nat (idx3 y x 0 H W) \<noteq> nat (idx3 y x 1 H W)"
          "nat (idx3 y x 0 H W) \<noteq> nat (idx3 y x 2 H W)"
          "nat (idx3 y x 1 H W) \<noteq> nat (idx3 y x 2 H W)"
    using channels_distinct[OF p] i[of 0] i[of 1] i[of 2] by auto
  show ?thesis
    using True i[of 0] i[of 1] i[of 2] d
    by (simp add: line_pixel_def blend_channel_def paint_def line_blend_def rd_def wr_def Let_def)
next
  case False
  then have "paint H W y x (line_blend l y x) cv = cv"
    by (auto simp: paint_def line_blend_def Let_def)
  with False show ?thesis
    by (auto simp: line_pixel_def Let_def)
qed

text \<open>
  Drawing a line over a box inside the canvas does not fault and paints each pixel of the
  box once.
\<close>

lemma draw_line_paint_all:
  assumes len: "length cv = nat (H * W * 3)"
    and box: "1 \<le> xmin" "xmax \<le> W" "1 \<le> ymin" "ymax \<le> H"
  shows "for_rect_err xmin xmax ymin ymax
           (line_pixel H W (line_x1 l) (line_y1 l) (line_x2 l) (line_y2 l) (line_w l)
              (line_alpha l) (line_col l)) cv =
         Inr (paint_all H W (line_blend l) (List.product [ymin..ymax] [xmin..xmax]) cv)"
  unfolding for_rect_err_def for_rect_product paint_all_def
  using box by (intro fold_err_pixels[OF _ len]) (auto simp: line_pixel_paint)

lemma reset_paint_all:
  assumes len: "length cv = nat (H * W * 3)"
    and box: "1 \<le> xmin" "xmax \<le> W" "1 \<le> ymin" "ymax \<le> H"
  shows "for_rect_err xmin xmax ymin ymax (line_reset_pixel H W) cv =
         Inr (paint_all H W (\<lambda>y x c v. 1) (List.product [ymin..ymax] [xmin..xmax]) cv)"
  unfolding for_rect_err_def for_rect_product paint_all_def
  using box by (intro fold_err_pixels[OF _ len]) (auto simp: line_reset_pixel_paint)

subsection \<open>One line\<close>

lemma re_render_pixels_in_rect:
  "(y, x) \<in> set (re_render_pixels xmin xmax ymin ymax l) \<Longrightarrow>
     ymin \<le> y \<and> y \<le> ymax \<and> xmin \<le> x \<and> x \<le> xmax"
  by (auto simp: re_render_pixels_def Let_def split: if_splits)

lemma re_render_pixels_distinct: "distinct (re_render_pixels xmin xmax ymin ymax l)"
  by (simp add: re_render_pixels_def Let_def distinct_product)

lemma render_pixels_in_canvas:
  "(y, x) \<in> set (render_pixels H W l) \<Longrightarrow> 1 \<le> y \<and> y \<le> H \<and> 1 \<le> x \<and> x \<le> W"
  by (auto simp: render_pixels_def Let_def)

lemma render_pixels_distinct: "distinct (render_pixels H W l)"
  by (simp add: render_pixels_def Let_def distinct_product)

lemma re_render_line_paint:
  assumes len: "length cv = nat (H * W * 3)"
    and rect: "1 \<le> xmin" "xmax \<le> W" "1 \<le> ymin" "ymax \<le> H"
  shows "re_render_line xmin xmax ymin ymax H W l cv =
         Inr (paint_all H W (line_blend l) (re_render_pixels xmin xmax ymin ymax l) cv)"
proof -
  define r where "r = line_w l / 2 + 2"
  define bx0 where "bx0 = max xmin \<lfloor>min (line_x1 l) (line_x2 l) - r\<rfloor>"
  define bx1 where "bx1 = min xmax \<lceil>max (line_x1 l) (line_x2 l) + r\<rceil>"
  define by0 where "by0 = max ymin \<lfloor>min (line_y1 l) (line_y2 l) - r\<rfloor>"
  define by1 where "by1 = min ymax \<lceil>max (line_y1 l) (line_y2 l) + r\<rceil>"
  have box: "1 \<le> bx0" "bx1 \<le> W" "1 \<le> by0" "by1 \<le> H"
    using rect by (auto simp: bx0_def bx1_def by0_def by1_def)
  note draw = draw_line_paint_all[OF len box, of l]
  show ?thesis
    unfolding re_render_line_def re_render_pixels_def Let_def
    using draw by (simp add: r_def bx0_def bx1_def by0_def by1_def paint_all_def)
qed

lemma render_line_paint:
  assumes len: "length cv = nat (H * W * 3)"
  shows "render_line H W l cv = Inr (paint_all H W (line_blend l) (render_pixels H W l) cv)"
proof -
  define r where "r = line_w l / 2 + 2"
  define bx0 where "bx0 = max 1 \<lfloor>min (line_x1 l) (line_x2 l) - r\<rfloor>"
  define bx1 where "bx1 = min W \<lceil>max (line_x1 l) (line_x2 l) + r\<rceil>"
  define by0 where "by0 = max 1 \<lfloor>min (line_y1 l) (line_y2 l) - r\<rfloor>"
  define by1 where "by1 = min H \<lceil>max (line_y1 l) (line_y2 l) + r\<rceil>"
  have box: "1 \<le> bx0" "bx1 \<le> W" "1 \<le> by0" "by1 \<le> H"
    by (auto simp: bx0_def bx1_def by0_def by1_def)
  note draw = draw_line_paint_all[OF len box, of l]
  show ?thesis
    unfolding render_line_def render_pixels_def Let_def
    using draw by (simp add: r_def bx0_def bx1_def by0_def by1_def)
qed

text \<open>
  A pixel that a render function does not visit has coverage 0 when the width is not
  negative, so blending would leave its samples as they are.
\<close>

lemma line_coverage_zero_far:
  assumes w: "0 \<le> w"
    and far: "real_of_int x - 1 / 2 \<le> min x1 x2 - (w / 2 + 1 / 2) \<or>
              max x1 x2 + (w / 2 + 1 / 2) \<le> real_of_int x - 1 / 2 \<or>
              real_of_int y - 1 / 2 \<le> min y1 y2 - (w / 2 + 1 / 2) \<or>
              max y1 y2 + (w / 2 + 1 / 2) \<le> real_of_int y - 1 / 2"
  shows "line_coverage x1 y1 x2 y2 w x y = 0"
proof -
  have c: "0 \<le> w / 2 + 1 / 2" using w by simp
  have "(w / 2 + 1 / 2) * (w / 2 + 1 / 2) \<le> line_d2 x1 y1 x2 y2 x y"
    using far line_d2_x[OF c, of x x1 x2 y1 y2 y] line_d2_y[OF c, of y y1 y2 x1 x2 x] by blast
  then show ?thesis
    unfolding line_coverage_def using w by (intro capsule_coverage_zero) auto
qed

lemma line_blend_unvisited_re_render:
  assumes w: "0 \<le> line_w l"
    and rect: "ymin \<le> y" "y \<le> ymax" "xmin \<le> x" "x \<le> xmax"
    and out: "(y, x) \<notin> set (re_render_pixels xmin xmax ymin ymax l)"
  shows "line_blend l y x c v = v"
proof -
  let ?r = "line_w l / 2 + 2"
  let ?x1 = "line_x1 l" and ?x2 = "line_x2 l" and ?y1 = "line_y1 l" and ?y2 = "line_y2 l"
  have cases: "max ?x1 ?x2 + ?r < real_of_int xmin \<or> min ?x1 ?x2 - ?r > real_of_int xmax \<or>
        max ?y1 ?y2 + ?r < real_of_int ymin \<or> min ?y1 ?y2 - ?r > real_of_int ymax \<or>
        x < \<lfloor>min ?x1 ?x2 - ?r\<rfloor> \<or> \<lceil>max ?x1 ?x2 + ?r\<rceil> < x \<or>
        y < \<lfloor>min ?y1 ?y2 - ?r\<rfloor> \<or> \<lceil>max ?y1 ?y2 + ?r\<rceil> < y"
    using out rect by (auto simp: re_render_pixels_def Let_def split: if_splits)
  have rx: "real_of_int xmin \<le> real_of_int x" "real_of_int x \<le> real_of_int xmax"
    and ry: "real_of_int ymin \<le> real_of_int y" "real_of_int y \<le> real_of_int ymax"
    using rect by simp_all
  have "real_of_int x - 1 / 2 \<le> min ?x1 ?x2 - (line_w l / 2 + 1 / 2) \<or>
        max ?x1 ?x2 + (line_w l / 2 + 1 / 2) \<le> real_of_int x - 1 / 2 \<or>
        real_of_int y - 1 / 2 \<le> min ?y1 ?y2 - (line_w l / 2 + 1 / 2) \<or>
        max ?y1 ?y2 + (line_w l / 2 + 1 / 2) \<le> real_of_int y - 1 / 2"
    using cases
  proof (elim disjE)
    assume "x < \<lfloor>min ?x1 ?x2 - ?r\<rfloor>"
    from int_lt_floorD[OF this] show ?thesis by linarith
  next
    assume "\<lceil>max ?x1 ?x2 + ?r\<rceil> < x"
    from int_gt_ceilingD[OF this] show ?thesis by linarith
  next
    assume "y < \<lfloor>min ?y1 ?y2 - ?r\<rfloor>"
    from int_lt_floorD[OF this] show ?thesis by linarith
  next
    assume "\<lceil>max ?y1 ?y2 + ?r\<rceil> < y"
    from int_gt_ceilingD[OF this] show ?thesis by linarith
  qed (use rx ry in linarith)+
  from line_coverage_zero_far[OF w this] show ?thesis
    by (simp add: line_blend_def)
qed

lemma line_blend_unvisited_render:
  assumes w: "0 \<le> line_w l"
    and p: "1 \<le> y" "y \<le> H" "1 \<le> x" "x \<le> W"
    and out: "(y, x) \<notin> set (render_pixels H W l)"
  shows "line_blend l y x c v = v"
proof -
  let ?r = "line_w l / 2 + 2"
  have "x < \<lfloor>min (line_x1 l) (line_x2 l) - ?r\<rfloor> \<or> \<lceil>max (line_x1 l) (line_x2 l) + ?r\<rceil> < x \<or>
        y < \<lfloor>min (line_y1 l) (line_y2 l) - ?r\<rfloor> \<or> \<lceil>max (line_y1 l) (line_y2 l) + ?r\<rceil> < y"
    using out p by (auto simp: render_pixels_def Let_def)
  from line_outside_box[OF w this] show ?thesis
    by (simp add: line_blend_def)
qed

subsection \<open>The list of lines\<close>

lemma fold_err_pure:
  assumes body: "\<And>a cv. a \<in> set as \<Longrightarrow> length cv = n \<Longrightarrow>
              body a cv = Inr (h a cv) \<and> length (h a cv) = n"
    and len: "length cv = n"
  shows "fold (\<lambda>a r. bind_err r (body a)) as (Inr cv) = Inr (fold h as cv)"
  using assms
proof (induction as arbitrary: cv)
  case Nil
  then show ?case by simp
next
  case (Cons a as)
  from Cons.prems(1)[of a cv] Cons.prems(2)
  have b: "body a cv = Inr (h a cv)" "length (h a cv) = n" by auto
  have "fold (\<lambda>a r. bind_err r (body a)) as (Inr (h a cv)) = Inr (fold h as (h a cv))"
    using Cons.prems(1) b(2) by (intro Cons.IH) auto
  then show ?case by (simp add: b(1))
qed

lemma re_render_lines_pure:
  assumes len: "length base = nat (H * W * 3)"
    and rect: "1 \<le> xmin" "xmax \<le> W" "1 \<le> ymin" "ymax \<le> H"
  shows "re_render_bbox_from_lines_cpp base lines xmin xmax ymin ymax H W =
         Inr (fold (\<lambda>l. paint_all H W (line_blend l) (re_render_pixels xmin xmax ymin ymax l)) lines
                (paint_all H W (\<lambda>y x c v. 1) (List.product [ymin..ymax] [xmin..xmax]) base))"
  unfolding re_render_bbox_from_lines_cpp_def reset_paint_all[OF len rect]
  by (intro fold_err_pure[where n = "nat (H * W * 3)"])
     (simp_all add: re_render_line_paint[OF _ rect] len)

lemma render_full_pure:
  "render_full_canvas_cpp lines H W =
     Inr (fold (\<lambda>l. paint_all H W (line_blend l) (render_pixels H W l)) lines
            (replicate (nat (H * W * 3)) 1))"
  unfolding render_full_canvas_cpp_def
  by (intro fold_err_pure[where n = "nat (H * W * 3)"]) (simp_all add: render_line_paint)

lemma length_fold_paint_all [simp]:
  "length (fold (\<lambda>l. paint_all H W (g l) (ps l)) lines cv) = length cv"
  by (induction lines arbitrary: cv) simp_all

text \<open>
  The frame of the incremental re-render for lines: for a rectangle inside the canvas and
  a base canvas of \<open>H * W * 3\<close> samples it does not fault, and the samples of every
  pixel outside the rectangle keep the value they have in the base canvas.
\<close>

lemma re_render_lines_frame:
  assumes len: "length base = nat (H * W * 3)"
    and rect: "1 \<le> xmin" "xmax \<le> W" "1 \<le> ymin" "ymax \<le> H"
    and p: "1 \<le> y" "y \<le> H" "1 \<le> x" "x \<le> W" and c: "0 \<le> c" "c \<le> 2"
    and out: "\<not> (ymin \<le> y \<and> y \<le> ymax \<and> xmin \<le> x \<and> x \<le> xmax)"
  shows "\<exists>cv. re_render_bbox_from_lines_cpp base lines xmin xmax ymin ymax H W = Inr cv \<and>
              length cv = length base \<and>
              cv ! nat (idx3 y x c H W) = base ! nat (idx3 y x c H W)"
proof -
  let ?step = "\<lambda>l. paint_all H W (line_blend l) (re_render_pixels xmin xmax ymin ymax l)"
  have keep: "fold ?step lines cv ! nat (idx3 y x c H W) = cv ! nat (idx3 y x c H W)"
    if "length cv = nat (H * W * 3)" for cv
    using that
  proof (induction lines arbitrary: cv)
    case Nil
    then show ?case by simp
  next
    case (Cons l lines)
    have inr: "\<And>y x. (y, x) \<in> set (re_render_pixels xmin xmax ymin ymax l) \<Longrightarrow>
                 1 \<le> y \<and> y \<le> H \<and> 1 \<le> x \<and> x \<le> W"
      using re_render_pixels_in_rect rect by fastforce
    have notin: "(y, x) \<notin> set (re_render_pixels xmin xmax ymin ymax l)"
      using re_render_pixels_in_rect out by blast
    have "?step l cv ! nat (idx3 y x c H W) = cv ! nat (idx3 y x c H W)"
      using paint_all_sample[OF Cons.prems re_render_pixels_distinct inr p c] notin by simp
    moreover have "length (?step l cv) = nat (H * W * 3)" using Cons.prems by simp
    ultimately show ?case using Cons.IH by simp
  qed
  let ?reset = "paint_all H W (\<lambda>y x c v. 1) (List.product [ymin..ymax] [xmin..xmax]) base"
  have inr: "\<And>y x. (y, x) \<in> set (List.product [ymin..ymax] [xmin..xmax]) \<Longrightarrow>
               1 \<le> y \<and> y \<le> H \<and> 1 \<le> x \<and> x \<le> W"
    using rect by auto
  have "?reset ! nat (idx3 y x c H W) = base ! nat (idx3 y x c H W)"
    using paint_all_sample[OF len rect_pixels_distinct inr p c] out by auto
  moreover have "length ?reset = nat (H * W * 3)" using len by simp
  ultimately show ?thesis
    using keep[of ?reset] re_render_lines_pure[OF len rect, of lines] len by simp
qed

text \<open>
  The incremental re-render for lines against the full render: for lines of width at
  least 0, a rectangle inside the canvas and a base canvas of \<open>H * W * 3\<close> samples,
  neither function faults and they agree on every sample of every pixel of the rectangle.
\<close>

lemma re_render_lines_equals_full:
  assumes len: "length base = nat (H * W * 3)"
    and rect: "1 \<le> xmin" "xmax \<le> W" "1 \<le> ymin" "ymax \<le> H"
    and widths: "\<And>l. l \<in> set lines \<Longrightarrow> 0 \<le> line_w l"
    and p: "ymin \<le> y" "y \<le> ymax" "xmin \<le> x" "x \<le> xmax" and c: "0 \<le> c" "c \<le> 2"
  shows "\<exists>inc full.
           re_render_bbox_from_lines_cpp base lines xmin xmax ymin ymax H W = Inr inc \<and>
           render_full_canvas_cpp lines H W = Inr full \<and>
           inc ! nat (idx3 y x c H W) = full ! nat (idx3 y x c H W)"
proof -
  let ?inc = "\<lambda>l. paint_all H W (line_blend l) (re_render_pixels xmin xmax ymin ymax l)"
  let ?full = "\<lambda>l. paint_all H W (line_blend l) (render_pixels H W l)"
  have pc: "1 \<le> y" "y \<le> H" "1 \<le> x" "x \<le> W" using p rect by auto
  have same: "fold ?inc lines a ! nat (idx3 y x c H W) = fold ?full lines b ! nat (idx3 y x c H W)"
    if "length a = nat (H * W * 3)" "length b = nat (H * W * 3)"
      "a ! nat (idx3 y x c H W) = b ! nat (idx3 y x c H W)" for a b
    using that widths
  proof (induction lines arbitrary: a b)
    case Nil
    then show ?case by simp
  next
    case (Cons l lines)
    have w: "0 \<le> line_w l" using Cons.prems(4) by simp
    have inr: "\<And>y x. (y, x) \<in> set (re_render_pixels xmin xmax ymin ymax l) \<Longrightarrow>
                 1 \<le> y \<and> y \<le> H \<and> 1 \<le> x \<and> x \<le> W"
      using re_render_pixels_in_rect rect by fastforce
    have ia: "?inc l a ! nat (idx3 y x c H W) = line_blend l y x c (a ! nat (idx3 y x c H W))"
      using paint_all_sample[OF Cons.prems(1) re_render_pixels_distinct inr pc c]
        line_blend_unvisited_re_render[OF w p] by auto
    have ib: "?full l b ! nat (idx3 y x c H W) = line_blend l y x c (b ! nat (idx3 y x c H W))"
      using paint_all_sample[OF Cons.prems(2) render_pixels_distinct render_pixels_in_canvas pc c]
        line_blend_unvisited_render[OF w pc] by auto
    have "fold ?inc lines (?inc l a) ! nat (idx3 y x c H W) =
          fold ?full lines (?full l b) ! nat (idx3 y x c H W)"
      using Cons.prems ia ib by (intro Cons.IH) simp_all
    then show ?case by simp
  qed
  let ?reset = "paint_all H W (\<lambda>y x c v. 1) (List.product [ymin..ymax] [xmin..xmax]) base"
  let ?white = "replicate (nat (H * W * 3)) (1::real)"
  have inr: "\<And>y x. (y, x) \<in> set (List.product [ymin..ymax] [xmin..xmax]) \<Longrightarrow>
               1 \<le> y \<and> y \<le> H \<and> 1 \<le> x \<and> x \<le> W"
    using rect by auto
  have r1: "?reset ! nat (idx3 y x c H W) = 1"
    using paint_all_sample[OF len rect_pixels_distinct inr pc c] p by auto
  have lw: "length ?white = nat (H * W * 3)" by simp
  have w1: "?white ! nat (idx3 y x c H W) = 1"
    using sample_index[OF lw pc c] by simp
  have "fold ?inc lines ?reset ! nat (idx3 y x c H W) = fold ?full lines ?white ! nat (idx3 y x c H W)"
    using len r1 w1 by (intro same) simp_all
  then show ?thesis
    using re_render_lines_pure[OF len rect, of lines] render_full_pure[of lines H W] by simp
qed

section \<open>Samples stay in the unit interval\<close>

text \<open>
  Every operation of the dot pipeline keeps the samples in \<open>[0, 1]\<close> when the colours
  are in \<open>[0, 1]\<close>, whatever the geometry and alpha; the operations of the line pipeline
  do so when also the width is at least \<open>-1\<close> and alpha lies in \<open>[0, 1]\<close>, which
  keeps the argument of \<^verbatim>\<open>clamp01\<close> at most 1. The lemmas about one primitive hold
  for every rectangle of the loop, so the invariant does not depend on the bounds of the
  drawing loops.
\<close>

lemma samples_ok_update:
  "samples_ok xs \<Longrightarrow> (i < length xs \<Longrightarrow> 0 \<le> v \<and> v \<le> 1) \<Longrightarrow> samples_ok (xs[i := v])"
proof (cases "i < length xs")
  case True
  assume "samples_ok xs" "i < length xs \<Longrightarrow> 0 \<le> v \<and> v \<le> 1"
  with True show ?thesis
    unfolding samples_ok_def by (auto dest!: set_update_subset_insert[THEN subsetD])
next
  case False
  assume "samples_ok xs"
  with False show ?thesis by (simp add: list_update_beyond)
qed

lemma samples_ok_update3:
  assumes "samples_ok xs"
    and "i0 < length xs \<Longrightarrow> 0 \<le> v0 \<and> v0 \<le> 1"
    and "i1 < length xs \<Longrightarrow> 0 \<le> v1 \<and> v1 \<le> 1"
    and "i2 < length xs \<Longrightarrow> 0 \<le> v2 \<and> v2 \<le> 1"
  shows "samples_ok (xs[i0 := v0, i1 := v1, i2 := v2])"
proof -
  have s1: "samples_ok (xs[i0 := v0])"
    using assms(1,2) by (rule samples_ok_update)
  have s2: "samples_ok (xs[i0 := v0, i1 := v1])"
  proof (rule samples_ok_update[OF s1])
    assume "i1 < length (xs[i0 := v0])"
    then show "0 \<le> v1 \<and> v1 \<le> 1" using assms(3) by simp
  qed
  show ?thesis
  proof (rule samples_ok_update[OF s2])
    assume "i2 < length (xs[i0 := v0, i1 := v1])"
    then show "0 \<le> v2 \<and> v2 \<le> 1" using assms(4) by simp
  qed
qed

lemma samples_ok_nth':
  "samples_ok xs \<Longrightarrow> i < length xs \<Longrightarrow> 0 \<le> xs ! i \<and> xs ! i \<le> 1"
  by (simp add: samples_ok_def)

lemma blend_unit:
  fixes a v k :: real
  assumes "0 \<le> a" "a \<le> 1" "0 \<le> v" "v \<le> 1" "0 \<le> k" "k \<le> 1"
  shows "0 \<le> a * k + (1 - a) * v \<and> a * k + (1 - a) * v \<le> 1"
proof -
  have "0 \<le> a * k" "0 \<le> (1 - a) * v" using assms by simp_all
  moreover have "a * k \<le> a" using mult_left_mono[of k 1 a] assms by simp
  moreover have "(1 - a) * v \<le> 1 - a" using mult_left_mono[of v 1 "1 - a"] assms by simp
  ultimately show ?thesis by linarith
qed

lemma blend_unit_dot:
  fixes a v k :: real
  assumes "0 \<le> a" "a \<le> 1" "0 \<le> v" "v \<le> 1" "0 \<le> k" "k \<le> 1"
  shows "0 \<le> v + a * (k - v) \<and> v + a * (k - v) \<le> 1"
proof -
  have "v + a * (k - v) = a * k + (1 - a) * v" by (simp add: algebra_simps)
  with blend_unit[OF assms] show ?thesis by simp
qed

lemma clamp01_unit: "0 \<le> clamp01 v \<and> clamp01 v \<le> 1"
  by (simp add: clamp01_def)

lemma chan_unit: "colour_ok col \<Longrightarrow> 0 \<le> chan col c \<and> chan col c \<le> 1"
  by (auto simp: colour_ok_def chan_def split: prod.splits)

lemma for_rect_inv:
  assumes "\<And>y x s. P s \<Longrightarrow> P (f y x s)" and "P s"
  shows "P (for_rect xmin xmax ymin ymax f s)"
proof -
  have row: "P (fold (f y) xs s)" if "P s" for y xs s
    using that by (induction xs arbitrary: s) (simp_all add: assms(1))
  have "P (fold (\<lambda>y. fold (f y) xs) ys s)" for xs ys
    using assms(2) by (induction ys arbitrary: s) (simp_all add: row)
  then show ?thesis by (simp add: for_rect_def)
qed

lemma dot_pixel_unit:
  assumes "samples_ok cv" "colour_ok col"
  shows "samples_ok (dot_pixel H W x y radius alpha col y0 x0 cv)"
proof -
  let ?a = "clamp01 (dot_coverage radius (dot_d2 x y x0 y0) * alpha)"
  have v: "0 \<le> cv ! i + ?a * (chan col c - cv ! i) \<and> cv ! i + ?a * (chan col c - cv ! i) \<le> 1"
    if "i < length cv" for i c
    using blend_unit_dot clamp01_unit samples_ok_nth'[OF assms(1) that] chan_unit[OF assms(2)]
    by blast
  have "samples_ok (cv[i0 := cv ! i0 + ?a * (chan col 0 - cv ! i0),
                       i1 := cv ! i1 + ?a * (chan col 1 - cv ! i1),
                       i2 := cv ! i2 + ?a * (chan col 2 - cv ! i2)])" for i0 i1 i2
    using assms(1) by (rule samples_ok_update3) (rule v, assumption)+
  then show ?thesis
    using assms(1) by (simp add: dot_pixel_def Let_def)
qed

lemma dot_reset_pixel_unit: "samples_ok cv \<Longrightarrow> samples_ok (dot_reset_pixel H W y x cv)"
  by (simp add: dot_reset_pixel_def Let_def samples_ok_update3)

lemma composite_dot_unit:
  "samples_ok canvas \<Longrightarrow> colour_ok col \<Longrightarrow>
   samples_ok (composite_dot_bbox_cpp canvas H W x y radius alpha col xmin xmax ymin ymax)"
  unfolding composite_dot_bbox_cpp_def
  by (rule for_rect_inv[where P = samples_ok]) (simp_all add: dot_pixel_unit)

lemma fold_inv:
  assumes "\<And>a s. a \<in> set as \<Longrightarrow> P s \<Longrightarrow> P (f a s)" and "P s"
  shows "P (fold f as s)"
  using assms by (induction as arbitrary: s) simp_all

lemma re_render_dots_unit:
  assumes "samples_ok canvas" "\<And>d. d \<in> set dots \<Longrightarrow> colour_ok (dot_col d)"
  shows "samples_ok (re_render_bbox_from_dots_cpp canvas dots H W xmin xmax ymin ymax)"
  unfolding re_render_bbox_from_dots_cpp_def
proof (rule fold_inv[where P = samples_ok])
  show "samples_ok (for_rect xmin xmax ymin ymax (dot_reset_pixel H W) canvas)"
    using assms(1) by (intro for_rect_inv[where P = samples_ok] dot_reset_pixel_unit)
  show "samples_ok (re_render_dot H W xmin xmax ymin ymax d s)"
    if "d \<in> set dots" "samples_ok s" for d s
  proof -
    have "samples_ok (for_rect a b c e (dot_pixel H W (dot_x d) (dot_y d) (dot_radius d)
            (dot_alpha d) (dot_col d)) s)" for a b c e
      using that(2) assms(2)[OF that(1)]
      by (intro for_rect_inv[where P = samples_ok] dot_pixel_unit)
    then show ?thesis using that(2) by (simp add: re_render_dot_def Let_def)
  qed
qed

lemma render_full_dots_unit:
  assumes "\<And>d. d \<in> set dots \<Longrightarrow> colour_ok (dot_col d)"
  shows "samples_ok (render_full_canvas_from_dots_cpp canvas dots H W)"
  unfolding render_full_canvas_from_dots_cpp_def
proof (rule fold_inv[where P = samples_ok])
  show "samples_ok (map (\<lambda>v. 1) canvas)" by (auto simp: samples_ok_def)
  show "samples_ok (render_dot H W d s)" if "d \<in> set dots" "samples_ok s" for d s
  proof -
    have "samples_ok (for_rect a b c e (dot_pixel H W (dot_x d) (dot_y d) (dot_radius d)
            (dot_alpha d) (dot_col d)) s)" for a b c e
      using that(2) assms[OF that(1)]
      by (intro for_rect_inv[where P = samples_ok] dot_pixel_unit)
    then show ?thesis by (simp add: render_dot_def Let_def)
  qed
qed

lemma line_alpha_unit:
  assumes "- 1 \<le> w" "0 \<le> alpha" "alpha \<le> 1"
  shows "0 \<le> clamp01_mcmc (line_coverage x1 y1 x2 y2 w x y * alpha) \<and>
         clamp01_mcmc (line_coverage x1 y1 x2 y2 w x y * alpha) \<le> 1"
proof -
  let ?cov = "line_coverage x1 y1 x2 y2 w x y"
  have cov: "0 \<le> ?cov" "?cov \<le> 1"
    using capsule_coverage_range[OF assms(1) line_d2_nonneg] by (simp_all add: line_coverage_def)
  have "?cov * alpha \<le> 1 * 1" using cov assms by (intro mult_mono) auto
  moreover have "0 \<le> ?cov * alpha" using cov assms by simp
  ultimately show ?thesis by (simp add: clamp01_mcmc_def)
qed

lemma composite_line_pixel_unit:
  assumes "samples_ok cv" "colour_ok col" "- 1 \<le> w" "0 \<le> alpha" "alpha \<le> 1"
  shows "samples_ok (composite_line_pixel H W x1 y1 x2 y2 w alpha col y x cv)"
proof -
  let ?a = "clamp01_mcmc (line_coverage x1 y1 x2 y2 w x y * alpha)"
  have v: "0 \<le> ?a * chan col c + (1 - ?a) * cv ! i \<and> ?a * chan col c + (1 - ?a) * cv ! i \<le> 1"
    if "i < length cv" for i c
    using blend_unit line_alpha_unit[OF assms(3,4,5)] samples_ok_nth'[OF assms(1) that]
      chan_unit[OF assms(2)]
    by blast
  have "samples_ok (cv[i0 := ?a * chan col 0 + (1 - ?a) * cv ! i0,
                       i1 := ?a * chan col 1 + (1 - ?a) * cv ! i1,
                       i2 := ?a * chan col 2 + (1 - ?a) * cv ! i2])" for i0 i1 i2
    using assms(1) by (rule samples_ok_update3) (rule v, assumption)+
  then show ?thesis
    using assms(1) by (simp add: composite_line_pixel_def Let_def)
qed

lemma composite_line_unit:
  "samples_ok canvas \<Longrightarrow> colour_ok col \<Longrightarrow> - 1 \<le> w \<Longrightarrow> 0 \<le> alpha \<Longrightarrow> alpha \<le> 1 \<Longrightarrow>
   samples_ok (composite_line_bbox_cpp canvas H W x1 y1 x2 y2 w alpha col xmin xmax ymin ymax)"
  unfolding composite_line_bbox_cpp_def
  by (rule for_rect_inv[where P = samples_ok]) (simp_all add: composite_line_pixel_unit)

lemma line_blend_unit:
  assumes "colour_ok (line_col l)" "- 1 \<le> line_w l" "0 \<le> line_alpha l" "line_alpha l \<le> 1"
    and "0 \<le> v" "v \<le> 1"
  shows "0 \<le> line_blend l y x c v \<and> line_blend l y x c v \<le> 1"
  using blend_unit[OF _ _ assms(5,6)] line_alpha_unit[OF assms(2,3,4)] chan_unit[OF assms(1)] assms(5,6)
  by (simp add: line_blend_def Let_def)

lemma paint_unit:
  assumes "samples_ok cv" "\<And>c v. 0 \<le> v \<Longrightarrow> v \<le> 1 \<Longrightarrow> 0 \<le> g c v \<and> g c v \<le> 1"
  shows "samples_ok (paint H W y x g cv)"
  unfolding paint_def
  using assms(1)
  by (rule samples_ok_update3) (rule assms(2); simp add: samples_ok_nth'[OF assms(1)])+

lemma paint_all_unit:
  assumes "samples_ok cv" "\<And>y x c v. 0 \<le> v \<Longrightarrow> v \<le> 1 \<Longrightarrow> 0 \<le> g y x c v \<and> g y x c v \<le> 1"
  shows "samples_ok (paint_all H W g ps cv)"
  unfolding paint_all_def
  by (rule fold_inv[where P = samples_ok]) (auto simp: assms paint_unit)

lemma render_full_lines_unit:
  assumes "\<And>l. l \<in> set lines \<Longrightarrow>
             colour_ok (line_col l) \<and> - 1 \<le> line_w l \<and> 0 \<le> line_alpha l \<and> line_alpha l \<le> 1"
  shows "\<exists>cv. render_full_canvas_cpp lines H W = Inr cv \<and> samples_ok cv"
proof -
  have "samples_ok (fold (\<lambda>l. paint_all H W (line_blend l) (render_pixels H W l)) lines
                      (replicate (nat (H * W * 3)) 1))"
  proof (rule fold_inv[where P = samples_ok])
    show "samples_ok (replicate (nat (H * W * 3)) 1)" by (auto simp: samples_ok_def)
    show "samples_ok (paint_all H W (line_blend l) (render_pixels H W l) s)"
      if "l \<in> set lines" "samples_ok s" for l s
      using that(2) assms[OF that(1)] by (intro paint_all_unit line_blend_unit) auto
  qed
  then show ?thesis by (simp add: render_full_pure)
qed

lemma re_render_lines_unit:
  assumes len: "length base = nat (H * W * 3)"
    and rect: "1 \<le> xmin" "xmax \<le> W" "1 \<le> ymin" "ymax \<le> H"
    and ok: "samples_ok base"
    and lines: "\<And>l. l \<in> set lines \<Longrightarrow>
             colour_ok (line_col l) \<and> - 1 \<le> line_w l \<and> 0 \<le> line_alpha l \<and> line_alpha l \<le> 1"
  shows "\<exists>cv. re_render_bbox_from_lines_cpp base lines xmin xmax ymin ymax H W = Inr cv \<and>
              samples_ok cv"
proof -
  have "samples_ok (fold (\<lambda>l. paint_all H W (line_blend l) (re_render_pixels xmin xmax ymin ymax l))
                      lines (paint_all H W (\<lambda>y x c v. 1) (List.product [ymin..ymax] [xmin..xmax]) base))"
  proof (rule fold_inv[where P = samples_ok])
    show "samples_ok (paint_all H W (\<lambda>y x c v. 1) (List.product [ymin..ymax] [xmin..xmax]) base)"
      using ok by (intro paint_all_unit) auto
    show "samples_ok (paint_all H W (line_blend l) (re_render_pixels xmin xmax ymin ymax l) s)"
      if "l \<in> set lines" "samples_ok s" for l s
      using that(2) lines[OF that(1)] by (intro paint_all_unit line_blend_unit) auto
  qed
  then show ?thesis by (simp add: re_render_lines_pure[OF len rect])
qed

subsection \<open>The incremental render of lines, whether or not it faults\<close>

lemma ok_or_fault_bind:
  assumes "ok_or_fault r" and "\<And>cv. samples_ok cv \<Longrightarrow> ok_or_fault (f cv)"
  shows "ok_or_fault (bind_err r f)"
  using assms by (cases r) (simp_all add: ok_or_fault_def)

lemma ok_or_fault_Inr [simp]: "ok_or_fault (Inr cv) \<longleftrightarrow> samples_ok cv"
  by (simp add: ok_or_fault_def)

lemma wr_ok: "samples_ok cv \<Longrightarrow> 0 \<le> v \<Longrightarrow> v \<le> 1 \<Longrightarrow> ok_or_fault (wr i v cv)"
  by (simp add: wr_def ok_or_fault_def samples_ok_update)

lemma blend_channel_ok:
  assumes "samples_ok cv" "colour_ok col" "0 \<le> a" "a \<le> 1"
  shows "ok_or_fault (blend_channel H W a col y x c cv)"
proof (cases "0 \<le> idx3 y x c H W \<and> idx3 y x c H W < int (length cv)")
  case True
  then have "nat (idx3 y x c H W) < length cv" by (simp add: nat_less_iff)
  from samples_ok_nth'[OF assms(1) this] blend_unit[OF assms(3,4)] chan_unit[OF assms(2), of c]
  have "0 \<le> a * chan col c + (1 - a) * cv ! nat (idx3 y x c H W) \<and>
        a * chan col c + (1 - a) * cv ! nat (idx3 y x c H W) \<le> 1"
    by blast
  with True assms(1) show ?thesis
    by (simp add: blend_channel_def Let_def rd_def wr_ok)
next
  case False
  then have "rd cv (idx3 y x c H W) = Inl OutOfBounds" by (simp only: rd_def if_False)
  then show ?thesis by (simp add: blend_channel_def Let_def ok_or_fault_def)
qed

lemma channels_ok:
  assumes "\<And>c cv. samples_ok cv \<Longrightarrow> ok_or_fault (f c cv)" and "samples_ok cv"
  shows "ok_or_fault (fold (\<lambda>c r. bind_err r (f c)) cs (Inr cv))"
proof (rule fold_inv[where P = ok_or_fault])
  show "ok_or_fault (Inr cv)" using assms(2) by simp
  show "ok_or_fault (bind_err r (f c))" if "ok_or_fault r" for c r
    using that assms(1) by (rule ok_or_fault_bind)
qed

lemma line_pixel_ok:
  assumes "samples_ok cv" "colour_ok col" "- 1 \<le> w" "0 \<le> alpha" "alpha \<le> 1"
  shows "ok_or_fault (line_pixel H W x1 y1 x2 y2 w alpha col y x cv)"
proof (cases "line_coverage x1 y1 x2 y2 w x y > 0 \<and> alpha > 0")
  case True
  let ?a = "clamp01_mcmc (line_coverage x1 y1 x2 y2 w x y * alpha)"
  have "ok_or_fault (fold (\<lambda>c r. bind_err r (blend_channel H W ?a col y x c)) [0, 1, 2] (Inr cv))"
  proof (rule channels_ok)
    show "samples_ok cv" by fact
    show "ok_or_fault (blend_channel H W ?a col y x c cv')" if "samples_ok cv'" for c cv'
      using that assms(2) line_alpha_unit[OF assms(3,4,5), of x1 y1 x2 y2 x y]
      by (intro blend_channel_ok) simp_all
  qed
  then show ?thesis unfolding line_pixel_def Let_def if_P[OF True] .
next
  case False
  show ?thesis unfolding line_pixel_def Let_def if_not_P[OF False]
    using assms(1) by simp
qed

lemma line_reset_pixel_ok: "samples_ok cv \<Longrightarrow> ok_or_fault (line_reset_pixel H W y x cv)"
  unfolding line_reset_pixel_def by (rule channels_ok) (simp_all add: wr_ok)

lemma for_rect_err_ok:
  assumes "\<And>y x cv. samples_ok cv \<Longrightarrow> ok_or_fault (body y x cv)" and "samples_ok cv"
  shows "ok_or_fault (for_rect_err xmin xmax ymin ymax body cv)"
  unfolding for_rect_err_def
proof (rule for_rect_inv[where P = ok_or_fault])
  show "ok_or_fault (Inr cv)" using assms(2) by simp
  show "ok_or_fault (bind_err r (body y x))" if "ok_or_fault r" for y x r
    using that assms(1) by (rule ok_or_fault_bind)
qed

lemma re_render_line_ok:
  assumes "samples_ok cv" "colour_ok (line_col l)" "- 1 \<le> line_w l"
    "0 \<le> line_alpha l" "line_alpha l \<le> 1"
  shows "ok_or_fault (re_render_line xmin xmax ymin ymax H W l cv)"
proof -
  have "ok_or_fault (for_rect_err a b c e (line_pixel H W (line_x1 l) (line_y1 l) (line_x2 l)
          (line_y2 l) (line_w l) (line_alpha l) (line_col l)) cv)" for a b c e
    using assms(1) by (rule for_rect_err_ok[rotated]) (rule line_pixel_ok[OF _ assms(2,3,4,5)])
  then show ?thesis using assms(1) by (simp add: re_render_line_def Let_def)
qed

lemma re_render_lines_ok:
  assumes "samples_ok base"
    and "\<And>l. l \<in> set lines \<Longrightarrow>
           colour_ok (line_col l) \<and> - 1 \<le> line_w l \<and> 0 \<le> line_alpha l \<and> line_alpha l \<le> 1"
  shows "ok_or_fault (re_render_bbox_from_lines_cpp base lines xmin xmax ymin ymax H W)"
  unfolding re_render_bbox_from_lines_cpp_def
proof (rule fold_inv[where P = ok_or_fault])
  show "ok_or_fault (for_rect_err xmin xmax ymin ymax (line_reset_pixel H W) base)"
    using assms(1) by (rule for_rect_err_ok[rotated]) (rule line_reset_pixel_ok)
  show "ok_or_fault (bind_err r (re_render_line xmin xmax ymin ymax H W l))"
    if "l \<in> set lines" "ok_or_fault r" for l r
    using that(2)
  proof (rule ok_or_fault_bind)
    show "ok_or_fault (re_render_line xmin xmax ymin ymax H W l cv)" if "samples_ok cv" for cv
      using that assms(2)[OF \<open>l \<in> set lines\<close>] by (intro re_render_line_ok) simp_all
  qed
qed

subsection \<open>All operations\<close>

text \<open>
  Claim C5. Let every sample of the canvas be in \<open>[0, 1]\<close>, every alpha in \<open>(0, 1)\<close>,
  every colour channel in \<open>[0, 1]\<close> and every line width at least 0 (the data model asks
  for a width of about 0.2 or more). Then every sample is in \<open>[0, 1]\<close> after
  \<^verbatim>\<open>composite_dot_bbox_cpp\<close> and \<^verbatim>\<open>composite_line_bbox_cpp\<close> over any rectangle, after
  the incremental and the full render of dots, and after the full render of lines, which
  always returns. The incremental render of lines writes without a guard: whenever it
  returns, every sample is in \<open>[0, 1]\<close>, and it does return when the buffer has
  \<open>H * W * 3\<close> samples and the rectangle lies in the canvas.
\<close>

theorem compositing_keeps_unit_interval:
  assumes "samples_ok canvas"
    and "0 < alpha" and "alpha < 1" and "colour_ok col" and "0 \<le> w"
    and "\<forall>d \<in> set dots. 0 < dot_alpha d \<and> dot_alpha d < 1 \<and> colour_ok (dot_col d)"
    and "\<forall>l \<in> set lines. 0 \<le> line_w l \<and> 0 < line_alpha l \<and> line_alpha l < 1 \<and>
           colour_ok (line_col l)"
  shows "samples_ok (composite_dot_bbox_cpp canvas H W x y radius alpha col xmin xmax ymin ymax) \<and>
         samples_ok (composite_line_bbox_cpp canvas H W x1 y1 x2 y2 w alpha col
                       xmin xmax ymin ymax) \<and>
         samples_ok (re_render_bbox_from_dots_cpp canvas dots H W xmin xmax ymin ymax) \<and>
         samples_ok (render_full_canvas_from_dots_cpp canvas dots H W) \<and>
         (\<exists>cv. render_full_canvas_cpp lines H W = Inr cv \<and> samples_ok cv) \<and>
         (\<forall>cv. re_render_bbox_from_lines_cpp canvas lines xmin xmax ymin ymax H W = Inr cv \<longrightarrow>
               samples_ok cv) \<and>
         (length canvas = nat (H * W * 3) \<and> 1 \<le> xmin \<and> xmax \<le> W \<and> 1 \<le> ymin \<and> ymax \<le> H \<longrightarrow>
            (\<exists>cv. re_render_bbox_from_lines_cpp canvas lines xmin xmax ymin ymax H W = Inr cv))"
proof (intro conjI allI impI)
  have dots: "colour_ok (dot_col d)" if "d \<in> set dots" for d
    using assms(6) that by blast
  have lines: "colour_ok (line_col l) \<and> - 1 \<le> line_w l \<and> 0 \<le> line_alpha l \<and> line_alpha l \<le> 1"
    if "l \<in> set lines" for l
    using assms(7) that by fastforce
  show "samples_ok (composite_dot_bbox_cpp canvas H W x y radius alpha col xmin xmax ymin ymax)"
    using assms(1,4) by (rule composite_dot_unit)
  show "samples_ok (composite_line_bbox_cpp canvas H W x1 y1 x2 y2 w alpha col
                      xmin xmax ymin ymax)"
    using assms(1,2,3,4,5) by (intro composite_line_unit) simp_all
  show "samples_ok (re_render_bbox_from_dots_cpp canvas dots H W xmin xmax ymin ymax)"
    using assms(1) dots by (rule re_render_dots_unit)
  show "samples_ok (render_full_canvas_from_dots_cpp canvas dots H W)"
    using dots by (rule render_full_dots_unit)
  show "\<exists>cv. render_full_canvas_cpp lines H W = Inr cv \<and> samples_ok cv"
    using lines by (rule render_full_lines_unit)
  show "samples_ok cv"
    if "re_render_bbox_from_lines_cpp canvas lines xmin xmax ymin ymax H W = Inr cv" for cv
    using re_render_lines_ok[OF assms(1) lines, of lines xmin xmax ymin ymax H W] that
    by simp
  show "\<exists>cv. re_render_bbox_from_lines_cpp canvas lines xmin xmax ymin ymax H W = Inr cv"
    if "length canvas = nat (H * W * 3) \<and> 1 \<le> xmin \<and> xmax \<le> W \<and> 1 \<le> ymin \<and> ymax \<le> H"
    using re_render_lines_pure[of canvas H W xmin xmax ymin ymax lines] that by blast
qed

text \<open>
  The theorem on a 2 by 2 canvas of grey samples, with one red dot and one blue line of
  width 1, each of alpha \<open>1/2\<close>, and the whole canvas as rectangle.
\<close>

theorem compositing_keeps_unit_interval_witness:
  "samples_ok (replicate 12 (1 / 2)) \<and> (0::real) < 1 / 2 \<and> (1 / 2 :: real) < 1 \<and>
   colour_ok (1, 0, 0) \<and> colour_ok (0, 0, 1) \<and> (0::real) \<le> 1 \<and>
   length (replicate 12 (1 / 2 :: real)) = nat (2 * 2 * 3) \<and>
   samples_ok (composite_dot_bbox_cpp (replicate 12 (1 / 2)) 2 2 (3 / 2) (3 / 2) 1 (1 / 2) (1, 0, 0)
                 1 2 1 2) \<and>
   samples_ok (composite_line_bbox_cpp (replicate 12 (1 / 2)) 2 2 1 1 2 2 1 (1 / 2) (1, 0, 0)
                 1 2 1 2) \<and>
   samples_ok (re_render_bbox_from_dots_cpp (replicate 12 (1 / 2))
                 [\<lparr>dot_x = 3 / 2, dot_y = 3 / 2, dot_radius = 1, dot_alpha = 1 / 2,
                   dot_col = (1, 0, 0)\<rparr>] 2 2 1 2 1 2) \<and>
   samples_ok (render_full_canvas_from_dots_cpp (replicate 12 (1 / 2))
                 [\<lparr>dot_x = 3 / 2, dot_y = 3 / 2, dot_radius = 1, dot_alpha = 1 / 2,
                   dot_col = (1, 0, 0)\<rparr>] 2 2) \<and>
   (\<exists>cv. render_full_canvas_cpp
            [\<lparr>line_x1 = 1, line_y1 = 1, line_x2 = 2, line_y2 = 2, line_w = 1,
              line_alpha = 1 / 2, line_col = (0, 0, 1)\<rparr>] 2 2 = Inr cv \<and> samples_ok cv) \<and>
   (\<exists>cv. re_render_bbox_from_lines_cpp (replicate 12 (1 / 2))
            [\<lparr>line_x1 = 1, line_y1 = 1, line_x2 = 2, line_y2 = 2, line_w = 1,
              line_alpha = 1 / 2, line_col = (0, 0, 1)\<rparr>] 1 2 1 2 2 2 = Inr cv \<and> samples_ok cv)"
proof -
  let ?cv = "replicate 12 (1 / 2 :: real)"
  let ?d = "\<lparr>dot_x = 3 / 2, dot_y = 3 / 2, dot_radius = 1, dot_alpha = 1 / 2,
             dot_col = (1, 0, 0)\<rparr>"
  let ?l = "\<lparr>line_x1 = 1, line_y1 = 1, line_x2 = 2, line_y2 = 2, line_w = 1,
             line_alpha = 1 / 2, line_col = (0, 0, 1)\<rparr>"
  have cv: "samples_ok ?cv" by (simp add: samples_ok_def)
  have col: "colour_ok (1, 0, 0)" "colour_ok (0, 0, 1)" by (simp_all add: colour_ok_def)
  have a: "(0::real) < 1 / 2" "(1 / 2 :: real) < 1" "(0::real) \<le> 1" by simp_all
  have len: "length ?cv = nat (2 * 2 * 3)" by simp
  have d: "\<forall>d \<in> set [?d]. 0 < dot_alpha d \<and> dot_alpha d < 1 \<and> colour_ok (dot_col d)"
    using col by simp
  have l: "\<forall>l \<in> set [?l]. 0 \<le> line_w l \<and> 0 < line_alpha l \<and> line_alpha l < 1 \<and>
             colour_ok (line_col l)"
    using col by simp
  from compositing_keeps_unit_interval
         [where canvas = ?cv and alpha = "1 / 2" and col = "(1, 0, 0)" and w = 1
            and dots = "[?d]" and lines = "[?l]" and H = 2 and W = 2
            and x = "3 / 2" and y = "3 / 2" and radius = 1
            and ?x1.0 = 1 and ?y1.0 = 1 and ?x2.0 = 2 and ?y2.0 = 2
            and xmin = 1 and xmax = 2 and ymin = 1 and ymax = 2,
          OF cv a(1,2) col(1) a(3) d l]
  have r: "samples_ok (composite_dot_bbox_cpp ?cv 2 2 (3 / 2) (3 / 2) 1 (1 / 2) (1, 0, 0) 1 2 1 2)"
    "samples_ok (composite_line_bbox_cpp ?cv 2 2 1 1 2 2 1 (1 / 2) (1, 0, 0) 1 2 1 2)"
    "samples_ok (re_render_bbox_from_dots_cpp ?cv [?d] 2 2 1 2 1 2)"
    "samples_ok (render_full_canvas_from_dots_cpp ?cv [?d] 2 2)"
    "\<exists>cv. render_full_canvas_cpp [?l] 2 2 = Inr cv \<and> samples_ok cv"
    "\<forall>cv. re_render_bbox_from_lines_cpp ?cv [?l] 1 2 1 2 2 2 = Inr cv \<longrightarrow> samples_ok cv"
    "length ?cv = nat (2 * 2 * 3) \<and> (1::int) \<le> 1 \<and> (2::int) \<le> 2 \<and> (1::int) \<le> 1 \<and> (2::int) \<le> 2 \<longrightarrow>
       (\<exists>cv. re_render_bbox_from_lines_cpp ?cv [?l] 1 2 1 2 2 2 = Inr cv)"
    by blast+
  from r(7) len have "\<exists>cv. re_render_bbox_from_lines_cpp ?cv [?l] 1 2 1 2 2 2 = Inr cv" by simp
  with r(6) have "\<exists>cv. re_render_bbox_from_lines_cpp ?cv [?l] 1 2 1 2 2 2 = Inr cv \<and> samples_ok cv"
    by blast
  with cv col a len r(1-5) show ?thesis
    by (intro conjI) assumption+
qed

end
